theory Spec2Isabelle
  imports Main
begin

section \<open>Python string primitives used by the interview turn controller\<close>

text \<open>
  Utterances are modelled as \<^typ>\<open>string\<close>, a list of 8-bit characters, each read as the code
  point of that number (0 to 255); a Python string with a code point above 255 is outside the
  type. On these code points the whitespace of \<open>str.split()\<close> and \<open>str.strip()\<close> is: tab, line
  feed, vertical tab, form feed, carriage return, the separators \<open>0x1c\<close>..\<open>0x1f\<close>, the blank,
  the next-line control \<open>0x85\<close> and the no-break space \<open>0xa0\<close>. \<open>str.lower()\<close> adds 32 to
  \<open>A\<close>..\<open>Z\<close> (65..90) and to the capital letters \<open>0xc0\<close>..\<open>0xde\<close> other than the
  multiplication sign \<open>0xd7\<close>, and leaves every other code point as it is.
\<close>

definition is_space :: "char \<Rightarrow> bool" where
  "is_space c = (c \<in> set [CHR 0x09, CHR 0x0A, CHR 0x0B, CHR 0x0C, CHR 0x0D,
                            CHR 0x1C, CHR 0x1D, CHR 0x1E, CHR 0x1F, CHR 0x20,
                            CHR 0x85, CHR 0xA0])"

definition lower_char :: "char \<Rightarrow> char" where
  "lower_char c =
     (let n = (of_char c :: nat)
      in if (65 \<le> n \<and> n \<le> 90) \<or> (192 \<le> n \<and> n \<le> 214) \<or> (216 \<le> n \<and> n \<le> 222)
         then char_of (n + 32) else c)"

definition lower :: "string \<Rightarrow> string" where
  "lower s = map lower_char s"

definition strip :: "string \<Rightarrow> string" where
  "strip s = rev (dropWhile is_space (rev (dropWhile is_space s)))"

text \<open>\<open>s.split()\<close>: the maximal runs of non-whitespace characters, in order.\<close>

fun split_aux :: "string \<Rightarrow> string \<Rightarrow> string list" where
  "split_aux w [] = (if w = [] then [] else [w])"
| "split_aux w (c # cs) =
     (if is_space c then (if w = [] then split_aux [] cs else w # split_aux [] cs)
      else split_aux (w @ [c]) cs)"

definition split :: "string \<Rightarrow> string list" where
  "split s = split_aux [] s"

fun startswith :: "string \<Rightarrow> string \<Rightarrow> bool" where
  "startswith s [] = True"
| "startswith [] (p # ps) = False"
| "startswith (c # cs) (p # ps) = (c = p \<and> startswith cs ps)"

text \<open>\<open>py_in sub s\<close> is Python's \<open>sub in s\<close> on strings.\<close>

fun py_in :: "string \<Rightarrow> string \<Rightarrow> bool" where
  "py_in sub [] = (sub = [])"
| "py_in sub (c # cs) = (startswith (c # cs) sub \<or> py_in sub cs)"

text \<open>\<open>any(phrase in s for phrase in phrases)\<close>.\<close>

definition any_phrase_in :: "string list \<Rightarrow> string \<Rightarrow> bool" where
  "any_phrase_in phrases s = list_ex (\<lambda>phrase. py_in phrase s) phrases"


section \<open>ai_service.py: the conversation manager\<close>

datatype QuestionType = TECHNICAL | BEHAVIORAL | EXPERIENCE | SITUATIONAL

datatype DifficultyLevel = ENTRY | MID | SENIOR

text \<open>A transcript event, as the dictionaries appended to \<open>interview_data["conversation"]\<close>.
  Timestamps are readings of a clock, abstracted to natural numbers.\<close>

record turn_event =
  ev_type :: string
  ev_text :: string
  ev_timestamp :: nat
  ev_question_id :: "string option"

text \<open>The \<open>question_context\<close> dictionary handed to \<open>process_user_input\<close>.\<close>

record question_context =
  ctx_question_type :: QuestionType
  ctx_difficulty :: DifficultyLevel
  ctx_expected_answer_points :: "string list"

text \<open>
  The text-generation gateway is outside the repository. One call
  \<open>self.model.generate_content(prompt)\<close> either raises or returns a text.
\<close>

datatype gateway_reply = GatewayError | GatewayText string

text \<open>
  The structured judgment that \<open>_parse_json_response\<close> extracts from the gateway's text; each
  key may be missing, and the values the prompt asks for are strings and booleans.
\<close>

record structured_judgment =
  j_action :: "string option"
  j_ai_response :: "string option"
  j_follow_up_question :: "string option"
  j_feedback :: "string option"
  j_needs_follow_up :: "bool option"
  j_completeness_score :: "int option"
  j_accuracy_score :: "int option"
  j_next_action :: "string option"
  j_response_quality :: "string option"

text \<open>
  What the \<open>try\<close> block of \<open>_analyze_answer_intelligently\<close> sees: the call (or the parsing)
  raised; the parser returned the empty dictionary (no JSON object in the text, or one that
  does not decode); or it returned a non-empty dictionary.
\<close>

datatype analysis_outcome = AnalysisRaised | EmptyResult | Parsed structured_judgment

text \<open>The dictionary returned by \<open>process_user_input\<close>. The keys \<open>action\<close>, \<open>response\<close>,
  \<open>continue_listening\<close> and \<open>needs_follow_up\<close> are set by every producer; the others only by
  some.\<close>

record conversation_result =
  action :: string
  response :: string
  continue_listening :: bool
  needs_follow_up :: bool
  response_quality :: "string option"
  cr_follow_up_question :: "string option"
  cr_feedback :: "string option"
  quality_score :: "int option"
  accuracy_score :: "int option"

definition meta_result :: "string \<Rightarrow> string \<Rightarrow> bool \<Rightarrow> conversation_result" where
  "meta_result a r nf =
     \<lparr>action = a, response = r, continue_listening = True, needs_follow_up = nf,
      response_quality = None, cr_follow_up_question = None, cr_feedback = None,
      quality_score = None, accuracy_score = None\<rparr>"

definition clarify_question :: "string \<Rightarrow> gateway_reply \<Rightarrow> string" where
  "clarify_question question reply =
     (case reply of
        GatewayText t \<Rightarrow> strip t
      | GatewayError \<Rightarrow>
          ''Let me clarify that question for you. '' @ question @
          '' - I'm looking for your personal experience, thoughts, or approach to this topic. Take your time and share what comes to mind.'')"

definition provide_example :: "string \<Rightarrow> gateway_reply \<Rightarrow> string" where
  "provide_example question reply =
     (case reply of
        GatewayText t \<Rightarrow> strip t
      | GatewayError \<Rightarrow>
          ''For example, if I were answering this question, I might talk about a specific situation, the actions I took, and the outcome. Now, I'd like to hear about your own experience with this topic.'')"

definition wrong_indicators :: "string list" where
  "wrong_indicators = [''i dont know'', ''no idea'', ''not sure'', ''maybe'', ''i think'', ''probably'']"

definition fallback_intelligent_analysis :: "string \<Rightarrow> string \<Rightarrow> conversation_result" where
  "fallback_intelligent_analysis user_input current_question =
     (let word_count = length (split user_input);
          has_uncertainty = any_phrase_in wrong_indicators (lower user_input)
      in if word_count < 5 \<or> has_uncertainty then
           \<lparr>action = ''provide_feedback'',
            response = ''I can see you're uncertain about this. Let me help clarify the concept and give you another chance to think about it. This is a common area that many candidates find challenging.'',
            continue_listening = True, needs_follow_up = True,
            response_quality = Some ''poor'', cr_follow_up_question = None, cr_feedback = None,
            quality_score = None, accuracy_score = None\<rparr>
         else if word_count < 15 then
           \<lparr>action = ''encourage_more'',
            response = ''That's a good start! I can see you understand some aspects. Could you elaborate more and perhaps give me a specific example or walk me through your thought process?'',
            continue_listening = True, needs_follow_up = True,
            response_quality = Some ''fair'', cr_follow_up_question = None, cr_feedback = None,
            quality_score = None, accuracy_score = None\<rparr>
         else
           \<lparr>action = ''continue'',
            response = ''Thank you for that comprehensive answer. I can see you have good knowledge in this area and you've explained your thinking clearly.'',
            continue_listening = False, needs_follow_up = False,
            response_quality = Some ''good'', cr_follow_up_question = None, cr_feedback = None,
            quality_score = None, accuracy_score = None\<rparr>)"

definition get_or :: "'a option \<Rightarrow> 'a \<Rightarrow> 'a" where
  "get_or v dflt = (case v of Some x \<Rightarrow> x | None \<Rightarrow> dflt)"

definition analyze_answer_intelligently ::
  "string \<Rightarrow> string \<Rightarrow> turn_event list \<Rightarrow> question_context \<Rightarrow> analysis_outcome \<Rightarrow> conversation_result"
where
  "analyze_answer_intelligently user_input current_question conversation_history ctx outcome =
     (case outcome of
        AnalysisRaised \<Rightarrow> fallback_intelligent_analysis user_input current_question
      | EmptyResult \<Rightarrow> fallback_intelligent_analysis user_input current_question
      | Parsed result \<Rightarrow>
          \<lparr>action = get_or (j_action result) ''continue'',
           response = get_or (j_ai_response result) ''Thank you for that response.'',
           continue_listening =
             (get_or (j_next_action result) ''move_to_next_question'' = ''continue_listening''),
           needs_follow_up = get_or (j_needs_follow_up result) False,
           response_quality = Some (get_or (j_response_quality result) ''fair''),
           cr_follow_up_question = Some (get_or (j_follow_up_question result) ''''),
           cr_feedback = Some (get_or (j_feedback result) ''''),
           quality_score = Some (get_or (j_completeness_score result) 7),
           accuracy_score = Some (get_or (j_accuracy_score result) 7)\<rparr>)"

text \<open>What the gateway does during one call of \<open>process_user_input\<close>: at most one of the three
  replies is consumed.\<close>

record gateway =
  clarify_reply :: gateway_reply
  example_reply :: gateway_reply
  analysis_reply :: analysis_outcome

definition process_user_input ::
  "gateway \<Rightarrow> string \<Rightarrow> string \<Rightarrow> turn_event list \<Rightarrow> question_context \<Rightarrow> conversation_result"
where
  "process_user_input gw user_input current_question conversation_history ctx =
     (let user_input_lower = strip (lower user_input) in
      if any_phrase_in [''repeat'', ''again'', ''say that again'', ''repeat question'',
                        ''what was the question'', ''can you repeat''] user_input_lower then
        meta_result ''repeat_question''
          (''Of course! Let me repeat the question: '' @ current_question) False
      else if any_phrase_in [''clarify'', ''explain'', ''what do you mean'', ''unclear'', ''confused'',
                             ''don't understand'', ''rephrase''] user_input_lower then
        meta_result ''clarify_question'' (clarify_question current_question (clarify_reply gw)) False
      else if any_phrase_in [''skip'', ''next question'', ''pass'', ''i don't know'', ''no idea'',
                             ''not sure''] user_input_lower then
        meta_result ''skip_question''
          ''I understand. That's perfectly fine. Let me give you a moment to think, or we can move on to the next question. What would you prefer?''
          False
      else if any_phrase_in [''slow down'', ''too fast'', ''speak slower''] user_input_lower then
        meta_result ''adjust_pace''
          (''I'll speak more slowly. Let me repeat the question at a comfortable pace: '' @ current_question)
          False
      else if any_phrase_in [''example'', ''give me an example'', ''for instance'',
                             ''what do you mean by''] user_input_lower then
        meta_result ''provide_example'' (provide_example current_question (example_reply gw)) False
      else if length (split user_input) < 3 then
        meta_result ''encourage_elaboration''
          ''I'd love to hear more about that. Could you elaborate and give me more details about your thoughts or experience?''
          True
      else analyze_answer_intelligently user_input current_question conversation_history ctx
             (analysis_reply gw))"


section \<open>voice_service.py: the voice interview manager\<close>

record question =
  q_id :: string
  question_text :: string
  question_type :: QuestionType
  difficulty :: DifficultyLevel
  expected_answer_points :: "string list"
  follow_up_questions :: "string list"

text \<open>One entry of \<open>self.active_interviews\<close>. The index and the counter start at 0 and are only
  ever incremented or reset to 0, so they are natural numbers.\<close>

record interview_data =
  current_question_index :: nat
  questions :: "question list"
  conversation :: "turn_event list"
  status :: string
  follow_up_count :: nat
  current_question_attempts :: nat

text \<open>The payload of the response analyzer is opaque to the controller.\<close>

type_synonym analysis = string

text \<open>An element of the \<open>responses\<close> array of a stored interview. The controller's records
  carry a \<open>conversation_quality\<close>; those pushed by the \<open>/response\<close> route do not.\<close>

record response_record =
  rr_question_id :: string
  rr_question_text :: string
  rr_user_response :: string
  rr_response_time :: int
  rr_analysis :: analysis
  rr_conversation_quality :: "string option"
  rr_timestamp :: nat

text \<open>A document of the \<open>interviews\<close> collection: the fields of \<open>InterviewSession\<close> and the
  fields that the routes and the manager add with \<open>$set\<close>.\<close>

record interview_doc =
  doc_resume_id :: string
  doc_difficulty :: DifficultyLevel
  doc_questions :: "question list"
  doc_responses :: "response_record list"
  doc_status :: string
  doc_created_at :: nat
  doc_completed_at :: "nat option"
  doc_started_at :: "nat option"
  doc_conversation :: "turn_event list option"

type_synonym object_id = string

text \<open>
  The state that the operations share: the in-memory table of the manager, keyed by the id string
  of the request, and the \<open>interviews\<close> collection, keyed by \<open>ObjectId\<close>. The store is taken to
  answer every call (its input/output failures are outside the model).

  \<open>ObjectId(interview_id)\<close> belongs to the \<open>bson\<close> library; it is a parameter of every
  operation that calls it, with \<open>None\<close> for the \<open>InvalidId\<close> exception.
\<close>

record world =
  active_interviews :: "string \<rightharpoonup> interview_data"
  db_interviews :: "object_id \<rightharpoonup> interview_doc"

text \<open>\<open>update_one({"_id": k}, ...)\<close>: no document matched, nothing written.\<close>

definition update_one ::
  "object_id \<Rightarrow> (interview_doc \<Rightarrow> interview_doc) \<Rightarrow> (object_id \<rightharpoonup> interview_doc) \<Rightarrow> (object_id \<rightharpoonup> interview_doc)"
where
  "update_one k f db = (case db k of None \<Rightarrow> db | Some doc \<Rightarrow> db(k \<mapsto> f doc))"

text \<open>What one turn reads from outside: the clock (all readings of one call are taken to be the
  same), the gateway and the payload returned by \<open>response_analyzer.analyze_response\<close>.\<close>

record turn_env =
  now :: nat
  gw :: gateway
  analyzer_result :: analysis

record start_result =
  sr_message :: string
  sr_current_question :: question
  sr_question_index :: nat
  sr_total_questions :: nat

text \<open>The dictionary \<open>response_data\<close> returned by one turn. Its \<open>conversation\<close> entry is the very
  list object of the session, so it shows the events appended later in the turn: the model fills
  \<open>rd_conversation\<close> in when the turn returns.\<close>

record response_data =
  rd_conversation :: "turn_event list"
  rd_ai_response :: string
  rd_continue_same_question :: "bool option"
  rd_has_follow_up :: "bool option"
  rd_follow_up_question :: "string option"
  rd_next_question :: "question option"
  rd_question_index :: "nat option"
  rd_transition_message :: "string option"
  rd_interview_completed :: "bool option"
  rd_completion_message :: "string option"

definition append_event :: "turn_event \<Rightarrow> interview_data \<Rightarrow> interview_data" where
  "append_event e d = d\<lparr>conversation := conversation d @ [e]\<rparr>"

text \<open>\<open>interview_data\<close> is the object held by the table: \<open>store\<close> writes the mutated object back
  under its key.\<close>

definition store :: "string \<Rightarrow> interview_data \<Rightarrow> world \<Rightarrow> world" where
  "store interview_id d s = s\<lparr>active_interviews := (active_interviews s)(interview_id \<mapsto> d)\<rparr>"

text \<open>\<open>start_voice_interview\<close>. Its handler catches the \<open>InvalidId\<close> of \<open>ObjectId\<close> and the
  \<open>IndexError\<close> of \<open>interview["questions"][0]\<close> on an empty list; in the second case the entry
  has already been put into the table.\<close>

definition start_voice_interview ::
  "(string \<Rightarrow> object_id option) \<Rightarrow> nat \<Rightarrow> world \<Rightarrow> string \<Rightarrow> world \<times> start_result option"
where
  "start_voice_interview ObjectId clock s interview_id =
     (case ObjectId interview_id of
        None \<Rightarrow> (s, None)
      | Some k \<Rightarrow>
          (case db_interviews s k of
             None \<Rightarrow> (s, None)
           | Some interview \<Rightarrow>
               (let d = \<lparr>current_question_index = 0, questions = doc_questions interview,
                         conversation = [], status = ''active'', follow_up_count = 0,
                         current_question_attempts = 0\<rparr>;
                    s1 = store interview_id d s
                in case doc_questions interview of
                     [] \<Rightarrow> (s1, None)
                   | first_question # _ \<Rightarrow>
                       (store interview_id
                          (append_event
                             \<lparr>ev_type = ''ai_question'', ev_text = question_text first_question,
                              ev_timestamp = clock, ev_question_id = Some (q_id first_question)\<rparr> d)
                          s1,
                        Some \<lparr>sr_message = ''Voice interview started'',
                              sr_current_question = first_question, sr_question_index = 0,
                              sr_total_questions = length (doc_questions interview)\<rparr>))))"

text \<open>\<open>complete_interview\<close>, the teardown. An \<open>InvalidId\<close> raised inside the \<open>try\<close> leaves the
  entry in the table and gives \<open>False\<close>; \<open>update_one\<close> on a missing document writes nothing, and
  the entry is removed all the same.\<close>

definition complete_interview ::
  "(string \<Rightarrow> object_id option) \<Rightarrow> nat \<Rightarrow> world \<Rightarrow> string \<Rightarrow> world \<times> bool"
where
  "complete_interview ObjectId clock s interview_id =
     (case active_interviews s interview_id of
        None \<Rightarrow> (s, False)
      | Some d \<Rightarrow>
          (case ObjectId interview_id of
             None \<Rightarrow> (s, False)
           | Some k \<Rightarrow>
               (s\<lparr>db_interviews :=
                     update_one k
                       (\<lambda>doc. doc\<lparr>doc_status := ''completed'',
                                   doc_conversation := Some (conversation d),
                                   doc_completed_at := Some clock\<rparr>)
                       (db_interviews s),
                   active_interviews := (active_interviews s)(interview_id := None)\<rparr>,
                True)))"

definition completion_message :: string where
  "completion_message = ''Excellent! You've completed all the questions in your interview. You provided thoughtful responses and demonstrated your skills well. Thank you for your time, and you'll receive detailed feedback shortly.''"

definition transition_message :: string where
  "transition_message = ''Great! Now let's move on to the next question.''"

text \<open>\<open>_move_to_next_question\<close>. It returns the world, the mutated session object and the
  mutated \<open>response_data\<close>.\<close>

definition move_to_next_question ::
  "(string \<Rightarrow> object_id option) \<Rightarrow> nat \<Rightarrow> world \<Rightarrow> interview_data \<Rightarrow> response_data \<Rightarrow> string
     \<Rightarrow> world \<times> interview_data \<times> response_data"
where
  "move_to_next_question ObjectId clock s interview_data rd interview_id =
     (let d1 = interview_data\<lparr>current_question_index := current_question_index interview_data + 1,
                               follow_up_count := 0\<rparr>;
          next_index = current_question_index d1
      in if next_index < length (questions d1) then
           (let next_question = questions d1 ! next_index;
                d2 = append_event
                       \<lparr>ev_type = ''ai_transition'', ev_text = transition_message,
                        ev_timestamp = clock, ev_question_id = None\<rparr> d1;
                d3 = append_event
                       \<lparr>ev_type = ''ai_question'', ev_text = question_text next_question,
                        ev_timestamp = clock, ev_question_id = Some (q_id next_question)\<rparr> d2
            in (store interview_id d3 s, d3,
                rd\<lparr>rd_next_question := Some next_question, rd_question_index := Some next_index,
                   rd_has_follow_up := Some False,
                   rd_transition_message := Some transition_message\<rparr>))
         else
           (let d2 = d1\<lparr>status := ''completed''\<rparr>;
                d3 = append_event
                       \<lparr>ev_type = ''ai_completion'', ev_text = completion_message,
                        ev_timestamp = clock, ev_question_id = None\<rparr> d2
            in (fst (complete_interview ObjectId clock (store interview_id d3 s) interview_id), d3,
                rd\<lparr>rd_interview_completed := Some True,
                   rd_completion_message := Some completion_message\<rparr>)))"

text \<open>\<open>_save_response_analysis\<close>: one \<open>$push\<close> onto \<open>responses\<close>; an exception is swallowed.\<close>

definition save_response_analysis ::
  "(string \<Rightarrow> object_id option) \<Rightarrow> turn_env \<Rightarrow> world \<Rightarrow> string \<Rightarrow> question \<Rightarrow> string \<Rightarrow> int
     \<Rightarrow> conversation_result \<Rightarrow> world"
where
  "save_response_analysis ObjectId env s interview_id current_question user_response response_time cr =
     (case ObjectId interview_id of
        None \<Rightarrow> s
      | Some k \<Rightarrow>
          s\<lparr>db_interviews :=
               update_one k
                 (\<lambda>doc. doc\<lparr>doc_responses := doc_responses doc @
                    [\<lparr>rr_question_id = q_id current_question,
                      rr_question_text = question_text current_question,
                      rr_user_response = user_response,
                      rr_response_time = response_time,
                      rr_analysis = analyzer_result env,
                      rr_conversation_quality = Some (get_or (response_quality cr) ''fair''),
                      rr_timestamp = now env\<rparr>]\<rparr>)
                 (db_interviews s)\<rparr>)"

definition meta_actions :: "string list" where
  "meta_actions = [''repeat_question'', ''clarify_question'', ''provide_example'', ''adjust_pace'']"

definition follow_up_actions :: "string list" where
  "follow_up_actions = [''encourage_elaboration'', ''encourage_more'', ''follow_up'']"

definition advance_actions :: "string list" where
  "advance_actions = [''continue'', ''move_next'']"

text \<open>The \<open>conversation_result\<close> of a turn on the session object \<open>d\<close>: the user's event is
  appended first, and the resolver sees the transcript with it.\<close>

definition user_event :: "turn_env \<Rightarrow> interview_data \<Rightarrow> string \<Rightarrow> turn_event" where
  "user_event env d user_response =
     \<lparr>ev_type = ''user_response'', ev_text = user_response, ev_timestamp = now env,
      ev_question_id = Some (q_id (questions d ! current_question_index d))\<rparr>"

definition resolve_turn :: "turn_env \<Rightarrow> interview_data \<Rightarrow> string \<Rightarrow> conversation_result" where
  "resolve_turn env d user_response =
     (let current_question = questions d ! current_question_index d
      in process_user_input (gw env) user_response (question_text current_question)
           (conversation (append_event (user_event env d user_response) d))
           \<lparr>ctx_question_type = question_type current_question,
            ctx_difficulty = difficulty current_question,
            ctx_expected_answer_points = expected_answer_points current_question\<rparr>)"

definition ai_event :: "string \<Rightarrow> turn_env \<Rightarrow> interview_data \<Rightarrow> string \<Rightarrow> turn_event" where
  "ai_event kind env d text =
     \<lparr>ev_type = kind, ev_text = text, ev_timestamp = now env,
      ev_question_id = Some (q_id (questions d ! current_question_index d))\<rparr>"

text \<open>The session object once the user's event is appended, and once the \<open>ai_response\<close> event
  is appended after it.\<close>

definition heard :: "turn_env \<Rightarrow> interview_data \<Rightarrow> string \<Rightarrow> interview_data" where
  "heard env d user_response = append_event (user_event env d user_response) d"

definition answered :: "turn_env \<Rightarrow> interview_data \<Rightarrow> string \<Rightarrow> interview_data" where
  "answered env d user_response =
     append_event (ai_event ''ai_response'' env d (response (resolve_turn env d user_response)))
       (heard env d user_response)"

text \<open>The dictionary \<open>response_data\<close> as the turn creates it, and with a follow-up reported.\<close>

definition new_response_data :: "conversation_result \<Rightarrow> response_data" where
  "new_response_data cr =
     \<lparr>rd_conversation = [], rd_ai_response = response cr,
      rd_continue_same_question = None, rd_has_follow_up = None,
      rd_follow_up_question = None, rd_next_question = None,
      rd_question_index = None, rd_transition_message = None,
      rd_interview_completed = None, rd_completion_message = None\<rparr>"

definition with_follow_up :: "conversation_result \<Rightarrow> response_data \<Rightarrow> response_data" where
  "with_follow_up cr rd =
     rd\<lparr>rd_has_follow_up := Some True, rd_follow_up_question := Some (response cr)\<rparr>"

text \<open>What a turn returns when it ran to its end: the world, the session object and the
  \<open>response_data\<close>, whose transcript is the session's.\<close>

definition returned ::
  "world \<times> interview_data \<times> response_data \<Rightarrow> world \<times> interview_data option \<times> (string + response_data)"
where
  "returned r = (case r of (s', d', rd') \<Rightarrow>
     (s', Some d', Inr (rd'\<lparr>rd_conversation := conversation d'\<rparr>)))"

text \<open>\<open>process_voice_response\<close>, returning also the session object as the turn leaves it (the
  object outlives its removal from the table at the end of the interview). On sessions and
  questions of the types above no statement of the body raises, so the handler that turns an
  exception into \<open>Error processing response\<close> has no branch here; the two early returns are the
  \<open>Inl\<close> results.\<close>

definition process_voice_response_obj ::
  "(string \<Rightarrow> object_id option) \<Rightarrow> turn_env \<Rightarrow> world \<Rightarrow> string \<Rightarrow> string \<Rightarrow> int
     \<Rightarrow> world \<times> interview_data option \<times> (string + response_data)"
where
  "process_voice_response_obj ObjectId env s interview_id user_response response_time =
     (case active_interviews s interview_id of
        None \<Rightarrow> (s, None, Inl ''Interview not found or not active'')
      | Some interview_data \<Rightarrow>
          (let current_index = current_question_index interview_data in
           if current_index \<ge> length (questions interview_data) then
             (s, Some interview_data, Inl ''No more questions available'')
           else
             (let current_question = questions interview_data ! current_index;
                  cr = resolve_turn env interview_data user_response;
                  act = action cr;
                  rd = new_response_data cr;
                  d2 = (if act \<notin> set meta_actions
                        then answered env interview_data user_response
                        else heard env interview_data user_response)
              in returned
                   (if act \<in> set meta_actions then
                      (let message_type = (if act = ''repeat_question'' then ''ai_repeat''
                                           else ''ai_clarification'');
                           d3 = append_event
                                  (ai_event message_type env interview_data (response cr)) d2
                       in (store interview_id d3 s, d3,
                           (with_follow_up cr rd)\<lparr>rd_continue_same_question := Some True\<rparr>))
                    else if act \<in> set follow_up_actions \<and> continue_listening cr then
                      (let d3 = d2\<lparr>follow_up_count := follow_up_count d2 + 1\<rparr>;
                           rd1 = with_follow_up cr rd
                       in if follow_up_count d3 \<ge> 2
                          then move_to_next_question ObjectId (now env) s d3 rd1 interview_id
                          else (store interview_id d3 s, d3, rd1))
                    else if act = ''skip_question'' then
                      move_to_next_question ObjectId (now env) s d2 rd interview_id
                    else if act \<in> set advance_actions \<or> \<not> continue_listening cr then
                      move_to_next_question ObjectId (now env)
                        (save_response_analysis ObjectId env s interview_id current_question
                           user_response response_time cr)
                        d2 rd interview_id
                    else (store interview_id d2 s, d2, with_follow_up cr rd)))))"

definition process_voice_response ::
  "(string \<Rightarrow> object_id option) \<Rightarrow> turn_env \<Rightarrow> world \<Rightarrow> string \<Rightarrow> string \<Rightarrow> int
     \<Rightarrow> world \<times> (string + response_data)"
where
  "process_voice_response ObjectId env s interview_id user_response response_time =
     (case process_voice_response_obj ObjectId env s interview_id user_response response_time of
        (s', _, result) \<Rightarrow> (s', result))"


section \<open>routes.py: the routes that write interview sessions\<close>

text \<open>
  The exceptions that leave a route. \<open>HTTPException_str c e\<close> stands for
  \<open>HTTPException(status_code=c, detail=str(e))\<close>, which the handler
  \<open>except Exception as e\<close> of a route raises for whatever exception \<open>e\<close> reached it, an
  \<open>HTTPException\<close> of the route's own included.
\<close>

datatype exn = HTTPException nat string | InvalidId string | HTTPException_str nat exn

text \<open>The tail of \<open>generate_questions\<close>: \<open>insert_one\<close> of a new \<open>InterviewSession\<close> under the
  identifier \<open>k\<close> chosen by the store.\<close>

definition insert_interview ::
  "object_id \<Rightarrow> string \<Rightarrow> DifficultyLevel \<Rightarrow> question list \<Rightarrow> nat \<Rightarrow> world \<Rightarrow> world"
where
  "insert_interview k resume_id level qs utcnow s =
     s\<lparr>db_interviews := (db_interviews s)(k \<mapsto>
          \<lparr>doc_resume_id = resume_id, doc_difficulty = level, doc_questions = qs,
           doc_responses = [], doc_status = ''ready'', doc_created_at = utcnow,
           doc_completed_at = None, doc_started_at = None, doc_conversation = None\<rparr>)\<rparr>"

text \<open>A route that does \<open>update_one\<close> with \<open>$set\<close> and then tests \<open>matched_count\<close>.\<close>

definition set_route ::
  "(string \<Rightarrow> object_id option) \<Rightarrow> (interview_doc \<Rightarrow> interview_doc) \<Rightarrow> string \<Rightarrow> world \<Rightarrow> string
     \<Rightarrow> world \<times> (exn + string)"
where
  "set_route ObjectId f message s interview_id =
     (case ObjectId interview_id of
        None \<Rightarrow> (s, Inl (HTTPException_str 500 (InvalidId interview_id)))
      | Some k \<Rightarrow>
          (let matched_count = (if db_interviews s k = None then 0 else 1 :: nat);
               s' = s\<lparr>db_interviews := update_one k f (db_interviews s)\<rparr>
           in if matched_count = 0
              then (s', Inl (HTTPException_str 500 (HTTPException 404 ''Interview not found'')))
              else (s', Inr message)))"

definition route_start_interview ::
  "(string \<Rightarrow> object_id option) \<Rightarrow> nat \<Rightarrow> world \<Rightarrow> string \<Rightarrow> world \<times> (exn + string)"
where
  "route_start_interview ObjectId utcnow s interview_id =
     set_route ObjectId (\<lambda>doc. doc\<lparr>doc_status := ''in_progress'', doc_started_at := Some utcnow\<rparr>)
       ''Interview started'' s interview_id"

definition route_complete_interview ::
  "(string \<Rightarrow> object_id option) \<Rightarrow> nat \<Rightarrow> world \<Rightarrow> string \<Rightarrow> world \<times> (exn + string)"
where
  "route_complete_interview ObjectId utcnow s interview_id =
     set_route ObjectId (\<lambda>doc. doc\<lparr>doc_status := ''completed'', doc_completed_at := Some utcnow\<rparr>)
       ''Interview completed'' s interview_id"

text \<open>The body of \<open>submit_response\<close>, an \<open>InterviewResponse\<close> with the analyzer's payload.\<close>

definition route_submit_response ::
  "(string \<Rightarrow> object_id option) \<Rightarrow> analysis \<Rightarrow> world \<Rightarrow> string \<Rightarrow> response_record
     \<Rightarrow> world \<times> (exn + string)"
where
  "route_submit_response ObjectId payload s interview_id resp =
     (case ObjectId interview_id of
        None \<Rightarrow> (s, Inl (HTTPException_str 500 (InvalidId interview_id)))
      | Some k \<Rightarrow>
          (case db_interviews s k of
             None \<Rightarrow> (s, Inl (HTTPException_str 500 (HTTPException 404 ''Interview not found'')))
           | Some interview \<Rightarrow>
               (case find (\<lambda>q. q_id q = rr_question_id resp) (doc_questions interview) of
                  None \<Rightarrow> (s, Inl (HTTPException_str 500 (HTTPException 404 ''Question not found'')))
                | Some question \<Rightarrow>
                    (s\<lparr>db_interviews :=
                         update_one k
                           (\<lambda>doc. doc\<lparr>doc_responses := doc_responses doc @
                              [resp\<lparr>rr_analysis := payload, rr_conversation_quality := None\<rparr>]\<rparr>)
                           (db_interviews s)\<rparr>,
                     Inr ''Response recorded''))))"

definition route_start_voice_interview ::
  "(string \<Rightarrow> object_id option) \<Rightarrow> nat \<Rightarrow> nat \<Rightarrow> world \<Rightarrow> string \<Rightarrow> world \<times> (exn + start_result)"
where
  "route_start_voice_interview ObjectId clock utcnow s interview_id =
     (case start_voice_interview ObjectId clock s interview_id of
        (s1, None) \<Rightarrow> (s1, Inl (HTTPException_str 500 (HTTPException 404 ''Interview not found'')))
      | (s1, Some result) \<Rightarrow>
          (case ObjectId interview_id of
             None \<Rightarrow> (s1, Inl (HTTPException_str 500 (InvalidId interview_id)))
           | Some k \<Rightarrow>
               (s1\<lparr>db_interviews :=
                      update_one k
                        (\<lambda>doc. doc\<lparr>doc_status := ''in_progress'', doc_started_at := Some utcnow\<rparr>)
                        (db_interviews s1)\<rparr>,
                Inr result)))"

text \<open>The request body of the \<open>voice-response\<close> route: a dictionary whose keys may be missing.\<close>

record voice_request =
  req_response :: "string option"
  req_response_time :: "int option"

definition route_process_voice_response ::
  "(string \<Rightarrow> object_id option) \<Rightarrow> turn_env \<Rightarrow> world \<Rightarrow> string \<Rightarrow> voice_request
     \<Rightarrow> world \<times> (exn + response_data)"
where
  "route_process_voice_response ObjectId env s interview_id body =
     (let user_response = get_or (req_response body) [];
          response_time = get_or (req_response_time body) 0
      in if strip user_response = [] then (s, Inl (HTTPException 400 ''Empty response''))
         else
           (case process_voice_response ObjectId env s interview_id user_response response_time of
              (s', Inl err) \<Rightarrow> (s', Inl (HTTPException 400 err))
            | (s', Inr result) \<Rightarrow> (s', Inr result)))"

definition route_complete_voice_interview ::
  "(string \<Rightarrow> object_id option) \<Rightarrow> nat \<Rightarrow> world \<Rightarrow> string \<Rightarrow> world \<times> (exn + string)"
where
  "route_complete_voice_interview ObjectId clock s interview_id =
     (case complete_interview ObjectId clock s interview_id of
        (s', True) \<Rightarrow> (s', Inr ''Voice interview completed successfully'')
      | (s', False) \<Rightarrow> (s', Inl (HTTPException_str 500 (HTTPException 404 ''Interview not found''))))"


section \<open>Reachable states\<close>

text \<open>The states that the routes above produce from the empty table and the empty collection.
  A new document gets an identifier that the collection does not hold.\<close>

definition initial_world :: world where
  "initial_world = \<lparr>active_interviews = Map.empty, db_interviews = Map.empty\<rparr>"

inductive reachable :: "(string \<Rightarrow> object_id option) \<Rightarrow> world \<Rightarrow> bool"
  for ObjectId :: "string \<Rightarrow> object_id option"
where
  r_init: "reachable ObjectId initial_world"
| r_generate: "reachable ObjectId s \<Longrightarrow> db_interviews s k = None
     \<Longrightarrow> reachable ObjectId (insert_interview k resume_id level qs utcnow s)"
| r_start: "reachable ObjectId s
     \<Longrightarrow> reachable ObjectId (fst (route_start_interview ObjectId utcnow s interview_id))"
| r_submit: "reachable ObjectId s
     \<Longrightarrow> reachable ObjectId (fst (route_submit_response ObjectId payload s interview_id resp))"
| r_complete: "reachable ObjectId s
     \<Longrightarrow> reachable ObjectId (fst (route_complete_interview ObjectId utcnow s interview_id))"
| r_start_voice: "reachable ObjectId s
     \<Longrightarrow> reachable ObjectId (fst (route_start_voice_interview ObjectId clock utcnow s interview_id))"
| r_voice_response: "reachable ObjectId s
     \<Longrightarrow> reachable ObjectId (fst (route_process_voice_response ObjectId env s interview_id body))"
| r_complete_voice: "reachable ObjectId s
     \<Longrightarrow> reachable ObjectId (fst (route_complete_voice_interview ObjectId clock s interview_id))"

text \<open>A run of turns of one session, each with its own environment, utterance and response
  time.\<close>

fun run_turns ::
  "(string \<Rightarrow> object_id option) \<Rightarrow> world \<Rightarrow> string \<Rightarrow> (turn_env \<times> string \<times> int) list \<Rightarrow> world"
where
  "run_turns ObjectId s interview_id [] = s"
| "run_turns ObjectId s interview_id ((env, user_response, response_time) # rest) =
     run_turns ObjectId
       (fst (process_voice_response ObjectId env s interview_id user_response response_time))
       interview_id rest"


section \<open>The fallback heuristic in the words of the specification\<close>

text \<open>
  Section 4.2 of the specification: word-count the utterance; below 5 words or containing an
  uncertainty marker gives \<open>provide_feedback\<close>, \<open>poor\<close>, keep listening; below 15 words gives
  \<open>encourage_more\<close>, \<open>fair\<close>, keep listening; otherwise \<open>continue\<close>, \<open>good\<close>, do not keep
  listening. The triple is (action, quality, continue listening).
\<close>

definition spec_uncertainty_markers :: "string list" where
  "spec_uncertainty_markers =
     [''i dont know'', ''not sure'', ''maybe'', ''i think'', ''probably'', ''no idea'']"

definition spec_fallback :: "string \<Rightarrow> string \<times> string \<times> bool" where
  "spec_fallback utterance =
     (if length (split utterance) < 5
         \<or> (\<exists>marker \<in> set spec_uncertainty_markers. py_in marker (lower utterance))
      then (''provide_feedback'', ''poor'', True)
      else if length (split utterance) < 15 then (''encourage_more'', ''fair'', True)
      else (''continue'', ''good'', False))"


section \<open>Invariants of the reachable states\<close>

text \<open>Every entry of the table is within its question list, has used fewer than two follow-ups,
  is active, and was started under an id that \<open>ObjectId\<close> accepts.\<close>

definition sessions_ok :: "(string \<Rightarrow> object_id option) \<Rightarrow> world \<Rightarrow> bool" where
  "sessions_ok ObjectId s =
     (\<forall>interview_id d. active_interviews s interview_id = Some d \<longrightarrow>
        current_question_index d \<le> length (questions d) \<and> follow_up_count d < 2
        \<and> status d = ''active'' \<and> ObjectId interview_id \<noteq> None)"

text \<open>Every stored document whose status is \<open>completed\<close> has its \<open>completed_at\<close>.\<close>

definition docs_ok :: "world \<Rightarrow> bool" where
  "docs_ok s =
     (\<forall>k doc. db_interviews s k = Some doc \<longrightarrow> doc_status doc = ''completed''
        \<longrightarrow> doc_completed_at doc \<noteq> None)"


text \<open>Every entry of the table was started from a document that the collection still holds.\<close>

definition sessions_stored :: "(string \<Rightarrow> object_id option) \<Rightarrow> world \<Rightarrow> bool" where
  "sessions_stored ObjectId s =
     (\<forall>interview_id d. active_interviews s interview_id = Some d \<longrightarrow>
        (\<exists>k doc. ObjectId interview_id = Some k \<and> db_interviews s k = Some doc))"

text \<open>The \<open>responses\<close> array of the document \<open>k\<close> (empty when there is no such document).\<close>

definition responses_of :: "world \<Rightarrow> object_id \<Rightarrow> response_record list" where
  "responses_of s k = (case db_interviews s k of None \<Rightarrow> [] | Some doc \<Rightarrow> doc_responses doc)"



text \<open>Every entry of the table that has a question has a current question.\<close>

definition sessions_inside :: "world \<Rightarrow> bool" where
  "sessions_inside s =
     (\<forall>interview_id d. active_interviews s interview_id = Some d \<longrightarrow> questions d \<noteq> []
        \<longrightarrow> current_question_index d < length (questions d))"

text \<open>The entry that \<open>start_voice_interview\<close> writes before it reads the first question, for an
  interview stored without questions.\<close>

definition empty_session :: interview_data where
  "empty_session =
     \<lparr>current_question_index = 0, questions = [], conversation = [], status = ''active'',
      follow_up_count = 0, current_question_attempts = 0\<rparr>"


section \<open>Example data\<close>

definition gateway_down :: gateway where
  "gateway_down =
     \<lparr>clarify_reply = GatewayError, example_reply = GatewayError, analysis_reply = AnalysisRaised\<rparr>"

definition env0 :: turn_env where
  "env0 = \<lparr>now = 5, gw = gateway_down, analyzer_result = ''{}''\<rparr>"

definition ctx0 :: question_context where
  "ctx0 = \<lparr>ctx_question_type = TECHNICAL, ctx_difficulty = ENTRY, ctx_expected_answer_points = []\<rparr>"

definition q1 :: question where
  "q1 = \<lparr>q_id = ''q1'', question_text = ''What is a list?'', question_type = TECHNICAL,
         difficulty = ENTRY, expected_answer_points = [], follow_up_questions = []\<rparr>"

definition q2 :: question where
  "q2 = \<lparr>q_id = ''q2'', question_text = ''Tell me about a project.'', question_type = BEHAVIORAL,
         difficulty = ENTRY, expected_answer_points = [], follow_up_questions = []\<rparr>"

text \<open>An \<open>ObjectId\<close> that accepts the 24-character ids and keeps them as they are.\<close>

definition oid24 :: "string \<Rightarrow> object_id option" where
  "oid24 x = (if length x = 24 then Some x else None)"

definition id_a :: string where
  "id_a = ''aaaaaaaaaaaaaaaaaaaaaaaa''"

definition long_answer :: string where
  "long_answer = ''Paris is the capital of France and I used it daily in my last internship role with clear ownership''"

text \<open>One stored interview with the questions \<open>qs\<close>, then voice practice started on it.\<close>

definition stored :: "question list \<Rightarrow> world" where
  "stored qs = insert_interview id_a ''resume'' ENTRY qs 1 initial_world"

definition started :: "question list \<Rightarrow> world" where
  "started qs = fst (route_start_voice_interview oid24 2 3 (stored qs) id_a)"


text \<open>The entry of the table right after voice practice started on the questions \<open>q # qs\<close>.\<close>

definition session_at_start :: "nat \<Rightarrow> question \<Rightarrow> question list \<Rightarrow> interview_data" where
  "session_at_start clock q qs =
     \<lparr>current_question_index = 0, questions = q # qs,
      conversation = [\<lparr>ev_type = ''ai_question'', ev_text = question_text q,
                       ev_timestamp = clock, ev_question_id = Some (q_id q)\<rparr>],
      status = ''active'', follow_up_count = 0, current_question_attempts = 0\<rparr>"

definition completion_event :: "nat \<Rightarrow> turn_event" where
  "completion_event clock =
     \<lparr>ev_type = ''ai_completion'', ev_text = completion_message, ev_timestamp = clock,
      ev_question_id = None\<rparr>"


text \<open>The stored interview completed through the \<open>/complete\<close> route without voice practice, and
  voice practice started on it afterwards.\<close>

definition completed_by_route :: world where
  "completed_by_route = fst (route_complete_interview oid24 9 (stored [q1]) id_a)"

definition restarted_after_completion :: world where
  "restarted_after_completion = fst (route_start_voice_interview oid24 2 3 completed_by_route id_a)"

text \<open>The first question answered at length, voice practice started again on the same id, and
  the first question answered at length again.\<close>

definition answered_once :: world where
  "answered_once = fst (process_voice_response oid24 env0 (started [q1, q2]) id_a long_answer 3)"

definition answered_again :: world where
  "answered_again =
     fst (process_voice_response oid24 env0
            (fst (route_start_voice_interview oid24 2 3 answered_once id_a)) id_a long_answer 3)"




section \<open>Advancing and tearing down\<close>

lemma complete_interview_present:
  "active_interviews s i = Some d \<Longrightarrow> ObjectId i = Some k \<Longrightarrow>
   complete_interview ObjectId t s i =
     (s\<lparr>db_interviews := update_one k (\<lambda>doc. doc\<lparr>doc_status := ''completed'',
            doc_conversation := Some (conversation d), doc_completed_at := Some t\<rparr>) (db_interviews s),
        active_interviews := (active_interviews s)(i := None)\<rparr>, True)"
  by (simp add: complete_interview_def)

lemma complete_interview_absent:
  "active_interviews s i = None \<Longrightarrow> complete_interview ObjectId t s i = (s, False)"
  by (simp add: complete_interview_def)

lemma complete_interview_other:
  "j \<noteq> i \<Longrightarrow>
   active_interviews (fst (complete_interview ObjectId t s i)) j = active_interviews s j"
  by (simp add: complete_interview_def split: option.splits)

lemma complete_interview_removes:
  "ObjectId i \<noteq> None \<Longrightarrow> active_interviews (fst (complete_interview ObjectId t s i)) i = None"
  by (auto simp: complete_interview_def split: option.splits)

lemma move_obj:
  "fst (snd (move_to_next_question ObjectId t s d rd i)) =
     (if current_question_index d + 1 < length (questions d)
      then d\<lparr>current_question_index := current_question_index d + 1, follow_up_count := 0,
             conversation := conversation d @
               [\<lparr>ev_type = ''ai_transition'', ev_text = transition_message, ev_timestamp = t,
                 ev_question_id = None\<rparr>,
                \<lparr>ev_type = ''ai_question'',
                 ev_text = question_text (questions d ! (current_question_index d + 1)),
                 ev_timestamp = t,
                 ev_question_id = Some (q_id (questions d ! (current_question_index d + 1)))\<rparr>]\<rparr>
      else d\<lparr>current_question_index := current_question_index d + 1, follow_up_count := 0,
             status := ''completed'',
             conversation := conversation d @
               [\<lparr>ev_type = ''ai_completion'', ev_text = completion_message, ev_timestamp = t,
                 ev_question_id = None\<rparr>]\<rparr>)"
  by (simp add: move_to_next_question_def Let_def append_event_def)

lemma move_index [simp]:
  "current_question_index (fst (snd (move_to_next_question ObjectId t s d rd i))) =
     current_question_index d + 1"
  by (simp add: move_obj)

lemma move_follow_up_count [simp]:
  "follow_up_count (fst (snd (move_to_next_question ObjectId t s d rd i))) = 0"
  by (simp add: move_obj)

lemma move_questions [simp]:
  "questions (fst (snd (move_to_next_question ObjectId t s d rd i))) = questions d"
  by (simp add: move_obj)

lemma move_status:
  "status (fst (snd (move_to_next_question ObjectId t s d rd i))) =
     (if current_question_index d + 1 < length (questions d) then status d else ''completed'')"
  by (simp add: move_obj)

lemma move_world:
  "fst (move_to_next_question ObjectId t s d rd i) =
     (if current_question_index d + 1 < length (questions d)
      then store i (fst (snd (move_to_next_question ObjectId t s d rd i))) s
      else fst (complete_interview ObjectId t
                  (store i (fst (snd (move_to_next_question ObjectId t s d rd i))) s) i))"
  by (simp add: move_to_next_question_def Let_def)

lemma move_other:
  "j \<noteq> i \<Longrightarrow>
   active_interviews (fst (move_to_next_question ObjectId t s d rd i)) j = active_interviews s j"
  by (simp add: move_world complete_interview_other store_def)

lemma move_entry:
  "ObjectId i \<noteq> None \<Longrightarrow>
   active_interviews (fst (move_to_next_question ObjectId t s d rd i)) i =
     (if current_question_index d + 1 < length (questions d)
      then Some (fst (snd (move_to_next_question ObjectId t s d rd i))) else None)"
  by (simp add: move_world complete_interview_removes store_def)

lemma save_active [simp]:
  "active_interviews (save_response_analysis ObjectId env s i q u rt cr) = active_interviews s"
  by (simp add: save_response_analysis_def split: option.splits)


section \<open>The branches of one turn\<close>

lemma heard_fields [simp]:
  "current_question_index (heard env d u) = current_question_index d"
  "questions (heard env d u) = questions d"
  "status (heard env d u) = status d"
  "follow_up_count (heard env d u) = follow_up_count d"
  "conversation (heard env d u) = conversation d @ [user_event env d u]"
  by (simp_all add: heard_def append_event_def)

lemma answered_fields [simp]:
  "current_question_index (answered env d u) = current_question_index d"
  "questions (answered env d u) = questions d"
  "status (answered env d u) = status d"
  "follow_up_count (answered env d u) = follow_up_count d"
  "conversation (answered env d u) =
     conversation d @ [user_event env d u,
                       ai_event ''ai_response'' env d (response (resolve_turn env d u))]"
  by (simp_all add: answered_def append_event_def)

lemma append_event_fields [simp]:
  "current_question_index (append_event e d) = current_question_index d"
  "questions (append_event e d) = questions d"
  "status (append_event e d) = status d"
  "follow_up_count (append_event e d) = follow_up_count d"
  "conversation (append_event e d) = conversation d @ [e]"
  by (simp_all add: append_event_def)

lemma returned_proj [simp]:
  "fst (returned r) = fst r"
  "fst (snd (returned r)) = Some (fst (snd r))"
  by (simp_all add: returned_def split: prod.splits)

lemma returned_Inr:
  "snd (snd (returned r)) = Inr ((snd (snd r))\<lparr>rd_conversation := conversation (fst (snd r))\<rparr>)"
  by (simp add: returned_def split: prod.splits)

text \<open>In each lemma below the session \<open>d\<close> is in the table under \<open>i\<close> and has a current
  question.\<close>

lemma turn_not_found:
  "active_interviews s i = None \<Longrightarrow>
   process_voice_response_obj ObjectId env s i u rt =
     (s, None, Inl ''Interview not found or not active'')"
  by (simp add: process_voice_response_obj_def)

lemma turn_exhausted:
  "active_interviews s i = Some d \<Longrightarrow> length (questions d) \<le> current_question_index d \<Longrightarrow>
   process_voice_response_obj ObjectId env s i u rt =
     (s, Some d, Inl ''No more questions available'')"
  by (simp add: process_voice_response_obj_def)

lemma turn_meta:
  assumes "active_interviews s i = Some d" "current_question_index d < length (questions d)"
    and "action (resolve_turn env d u) \<in> set meta_actions"
  shows "process_voice_response_obj ObjectId env s i u rt =
     returned
       (store i (append_event
                   (ai_event (if action (resolve_turn env d u) = ''repeat_question''
                              then ''ai_repeat'' else ''ai_clarification'')
                      env d (response (resolve_turn env d u)))
                   (heard env d u)) s,
        append_event
          (ai_event (if action (resolve_turn env d u) = ''repeat_question''
                     then ''ai_repeat'' else ''ai_clarification'')
             env d (response (resolve_turn env d u)))
          (heard env d u),
        (with_follow_up (resolve_turn env d u) (new_response_data (resolve_turn env d u)))
          \<lparr>rd_continue_same_question := Some True\<rparr>)"
  using assms by (simp add: process_voice_response_obj_def Let_def)

lemma turn_follow_up_pending:
  assumes "active_interviews s i = Some d" "current_question_index d < length (questions d)"
    and "action (resolve_turn env d u) \<in> set follow_up_actions"
    and "continue_listening (resolve_turn env d u)"
    and "follow_up_count d + 1 < 2"
  shows "process_voice_response_obj ObjectId env s i u rt =
     returned
       (store i ((answered env d u)\<lparr>follow_up_count := follow_up_count d + 1\<rparr>) s,
        (answered env d u)\<lparr>follow_up_count := follow_up_count d + 1\<rparr>,
        with_follow_up (resolve_turn env d u) (new_response_data (resolve_turn env d u)))"
proof -
  have "action (resolve_turn env d u) \<notin> set meta_actions"
    using assms(3) by (auto simp: meta_actions_def follow_up_actions_def)
  then show ?thesis
    using assms by (simp add: process_voice_response_obj_def Let_def)
qed

lemma turn_follow_up_forced:
  assumes "active_interviews s i = Some d" "current_question_index d < length (questions d)"
    and "action (resolve_turn env d u) \<in> set follow_up_actions"
    and "continue_listening (resolve_turn env d u)"
    and "2 \<le> follow_up_count d + 1"
  shows "process_voice_response_obj ObjectId env s i u rt =
     returned
       (move_to_next_question ObjectId (now env) s
          ((answered env d u)\<lparr>follow_up_count := follow_up_count d + 1\<rparr>)
          (with_follow_up (resolve_turn env d u) (new_response_data (resolve_turn env d u))) i)"
proof -
  have "action (resolve_turn env d u) \<notin> set meta_actions"
    using assms(3) by (auto simp: meta_actions_def follow_up_actions_def)
  then show ?thesis
    using assms by (simp add: process_voice_response_obj_def Let_def)
qed

lemma turn_skip:
  assumes "active_interviews s i = Some d" "current_question_index d < length (questions d)"
    and "action (resolve_turn env d u) = ''skip_question''"
  shows "process_voice_response_obj ObjectId env s i u rt =
     returned
       (move_to_next_question ObjectId (now env) s (answered env d u)
          (new_response_data (resolve_turn env d u)) i)"
  using assms
  by (simp add: process_voice_response_obj_def Let_def meta_actions_def follow_up_actions_def)

lemma turn_finish:
  assumes "active_interviews s i = Some d" "current_question_index d < length (questions d)"
    and "action (resolve_turn env d u) \<notin> set meta_actions"
    and "\<not> (action (resolve_turn env d u) \<in> set follow_up_actions
            \<and> continue_listening (resolve_turn env d u))"
    and "action (resolve_turn env d u) \<noteq> ''skip_question''"
    and "action (resolve_turn env d u) \<in> set advance_actions
         \<or> \<not> continue_listening (resolve_turn env d u)"
  shows "process_voice_response_obj ObjectId env s i u rt =
     returned
       (move_to_next_question ObjectId (now env)
          (save_response_analysis ObjectId env s i (questions d ! current_question_index d) u rt
             (resolve_turn env d u))
          (answered env d u) (new_response_data (resolve_turn env d u)) i)"
  using assms by (auto simp add: process_voice_response_obj_def Let_def)

lemma turn_pending:
  assumes "active_interviews s i = Some d" "current_question_index d < length (questions d)"
    and "action (resolve_turn env d u) \<notin> set meta_actions"
    and "\<not> (action (resolve_turn env d u) \<in> set follow_up_actions
            \<and> continue_listening (resolve_turn env d u))"
    and "action (resolve_turn env d u) \<noteq> ''skip_question''"
    and "\<not> (action (resolve_turn env d u) \<in> set advance_actions
            \<or> \<not> continue_listening (resolve_turn env d u))"
  shows "process_voice_response_obj ObjectId env s i u rt =
     returned
       (store i (answered env d u) s, answered env d u,
        with_follow_up (resolve_turn env d u) (new_response_data (resolve_turn env d u)))"
  using assms by (auto simp add: process_voice_response_obj_def Let_def)


lemma process_voice_response_proj:
  "fst (process_voice_response ObjectId env s i u rt) =
     fst (process_voice_response_obj ObjectId env s i u rt)"
  "snd (process_voice_response ObjectId env s i u rt) =
     snd (snd (process_voice_response_obj ObjectId env s i u rt))"
  by (simp_all add: process_voice_response_def split: prod.splits)

text \<open>Every turn that runs either stays on its question and writes the session back, or goes
  through \<open>_move_to_next_question\<close> from a session object that is still on that question.\<close>

lemma turn_summary:
  assumes "active_interviews s i = Some d" "current_question_index d < length (questions d)"
  shows "(\<exists>d'. fst (process_voice_response_obj ObjectId env s i u rt) = store i d' s
            \<and> fst (snd (process_voice_response_obj ObjectId env s i u rt)) = Some d'
            \<and> current_question_index d' = current_question_index d
            \<and> questions d' = questions d \<and> status d' = status d
            \<and> (follow_up_count d < 2 \<longrightarrow> follow_up_count d' < 2))
       \<or> (\<exists>s0 d0 rd. fst (process_voice_response_obj ObjectId env s i u rt)
                        = fst (move_to_next_question ObjectId (now env) s0 d0 rd i)
            \<and> fst (snd (process_voice_response_obj ObjectId env s i u rt))
                = Some (fst (snd (move_to_next_question ObjectId (now env) s0 d0 rd i)))
            \<and> current_question_index d0 = current_question_index d
            \<and> questions d0 = questions d \<and> status d0 = status d
            \<and> (s0 = s \<or> s0 = save_response_analysis ObjectId env s i
                                  (questions d ! current_question_index d) u rt
                                  (resolve_turn env d u)))"
proof -
  let ?cr = "resolve_turn env d u"
  consider (meta) "action ?cr \<in> set meta_actions"
    | (pending_fu) "action ?cr \<in> set follow_up_actions" "continue_listening ?cr"
        "follow_up_count d + 1 < 2"
    | (forced) "action ?cr \<in> set follow_up_actions" "continue_listening ?cr"
        "2 \<le> follow_up_count d + 1"
    | (skip) "action ?cr = ''skip_question''"
    | (finish) "action ?cr \<notin> set meta_actions"
        "\<not> (action ?cr \<in> set follow_up_actions \<and> continue_listening ?cr)"
        "action ?cr \<noteq> ''skip_question''"
        "action ?cr \<in> set advance_actions \<or> \<not> continue_listening ?cr"
    | (pending) "action ?cr \<notin> set meta_actions"
        "\<not> (action ?cr \<in> set follow_up_actions \<and> continue_listening ?cr)"
        "action ?cr \<noteq> ''skip_question''"
        "\<not> (action ?cr \<in> set advance_actions \<or> \<not> continue_listening ?cr)"
    by (cases "follow_up_count d + 1 < 2") auto
  then show ?thesis
  proof cases
    case meta
    show ?thesis by (rule disjI1) (simp add: turn_meta [OF assms meta])
  next
    case pending_fu
    show ?thesis
      using pending_fu(3) by (intro disjI1) (simp add: turn_follow_up_pending [OF assms pending_fu])
  next
    case forced
    show ?thesis
      by (rule disjI2, subst (1 2) turn_follow_up_forced [OF assms forced], simp only: returned_proj)
         (rule exI, rule exI, rule exI, rule conjI, rule refl, simp)
  next
    case skip
    show ?thesis
      by (rule disjI2, subst (1 2) turn_skip [OF assms skip], simp only: returned_proj)
         (rule exI, rule exI, rule exI, rule conjI, rule refl, simp)
  next
    case finish
    show ?thesis
      by (rule disjI2, subst (1 2) turn_finish [OF assms finish], simp only: returned_proj)
         (rule exI, rule exI, rule exI, rule conjI, rule refl, simp)
  next
    case pending
    show ?thesis by (rule disjI1) (simp add: turn_pending [OF assms pending])
  qed
qed


section \<open>The fallback heuristic\<close>

lemma any_phrase_in_markers:
  "any_phrase_in wrong_indicators x = (\<exists>marker \<in> set spec_uncertainty_markers. py_in marker x)"
  by (auto simp: any_phrase_in_def wrong_indicators_def spec_uncertainty_markers_def)

text \<open>
  Claim C4. Whenever the semantic resolver falls back, because the gateway call raised or because
  no structured judgment came out of the returned text, the action, the quality label and the
  keep-listening flag of the result are those of the heuristic of the specification: fewer than
  5 words or an uncertainty marker in the lowercased text gives \<open>provide_feedback\<close>, \<open>poor\<close>,
  \<open>True\<close>; else fewer than 15 words gives \<open>encourage_more\<close>, \<open>fair\<close>, \<open>True\<close>; otherwise
  \<open>continue\<close>, \<open>good\<close>, \<open>False\<close>.
\<close>

theorem fallback_follows_spec:
  assumes "outcome = AnalysisRaised \<or> outcome = EmptyResult"
  shows "(action (analyze_answer_intelligently u q h c outcome),
          response_quality (analyze_answer_intelligently u q h c outcome),
          continue_listening (analyze_answer_intelligently u q h c outcome))
         = (case spec_fallback u of (a, ql, cl) \<Rightarrow> (a, Some ql, cl))"
  using assms
  by (auto simp: analyze_answer_intelligently_def fallback_intelligent_analysis_def
      spec_fallback_def any_phrase_in_markers Let_def)

theorem fallback_follows_spec_witness:
  "(action (analyze_answer_intelligently long_answer ''Q'' [] ctx0 AnalysisRaised),
    response_quality (analyze_answer_intelligently long_answer ''Q'' [] ctx0 AnalysisRaised),
    continue_listening (analyze_answer_intelligently long_answer ''Q'' [] ctx0 AnalysisRaised))
   = (''continue'', Some ''good'', False)
   \<and> (AnalysisRaised = AnalysisRaised \<or> AnalysisRaised = EmptyResult)"
proof -
  have "spec_fallback long_answer = (''continue'', ''good'', False)"
    by code_simp
  then show ?thesis
    using fallback_follows_spec [of AnalysisRaised long_answer "''Q''" "[]" ctx0] by simp
qed

text \<open>Words are separated by any whitespace of \<open>str.split()\<close>: five letters with no-break
  spaces between them are five words, and the fallback asks for more.\<close>

lemma no_break_space_separates_words:
  "length (split [CHR ''a'', CHR 0xA0, CHR ''b'', CHR 0xA0, CHR ''c'', CHR 0xA0, CHR ''d'',
                  CHR 0xA0, CHR ''e'']) = 5
   \<and> action (fallback_intelligent_analysis
                [CHR ''a'', CHR 0xA0, CHR ''b'', CHR 0xA0, CHR ''c'', CHR 0xA0, CHR ''d'',
                 CHR 0xA0, CHR ''e''] ''Q'') = ''encourage_more''"
  by code_simp

text \<open>
  Claim C9, as stated, fails: with the gateway down, the utterance
  \<open>I don't know, maybe not sure\<close> processed as a turn gets the action \<open>skip_question\<close> and no
  quality label, because the phrase test for skipping comes before the semantic analysis and
  its fallback.
\<close>

theorem dont_know_turn_counterexample:
  "action (process_user_input gateway_down ''I don't know, maybe not sure'' ''Q'' [] ctx0)
     = ''skip_question''
   \<and> action (process_user_input gateway_down ''I don't know, maybe not sure'' ''Q'' [] ctx0)
     \<noteq> ''provide_feedback''
   \<and> response_quality (process_user_input gateway_down ''I don't know, maybe not sure'' ''Q'' [] ctx0)
     \<noteq> Some ''poor''"
  by code_simp

text \<open>
  Claim C9, amended. The fallback heuristic applied to \<open>I don't know, maybe not sure\<close> gives
  \<open>provide_feedback\<close>, \<open>poor\<close> and keep listening; but a turn with this utterance never reaches
  it: whatever the gateway does, the intent classifier answers \<open>skip_question\<close> with keep
  listening and no quality label.
\<close>

theorem dont_know_fallback_and_turn:
  "action (fallback_intelligent_analysis ''I don't know, maybe not sure'' q) = ''provide_feedback''
   \<and> response_quality (fallback_intelligent_analysis ''I don't know, maybe not sure'' q) = Some ''poor''
   \<and> continue_listening (fallback_intelligent_analysis ''I don't know, maybe not sure'' q)
   \<and> action (process_user_input g ''I don't know, maybe not sure'' q h c) = ''skip_question''
   \<and> continue_listening (process_user_input g ''I don't know, maybe not sure'' q h c)
   \<and> response_quality (process_user_input g ''I don't know, maybe not sure'' q h c) = None"
proof -
  have unsure: "any_phrase_in wrong_indicators (lower ''I don't know, maybe not sure'')"
    by code_simp
  have no_repeat: "\<not> any_phrase_in [''repeat'', ''again'', ''say that again'', ''repeat question'',
      ''what was the question'', ''can you repeat''] (strip (lower ''I don't know, maybe not sure''))"
    by code_simp
  have no_clarify: "\<not> any_phrase_in [''clarify'', ''explain'', ''what do you mean'', ''unclear'',
      ''confused'', ''don't understand'', ''rephrase''] (strip (lower ''I don't know, maybe not sure''))"
    by code_simp
  have skip: "any_phrase_in [''skip'', ''next question'', ''pass'', ''i don't know'', ''no idea'',
      ''not sure''] (strip (lower ''I don't know, maybe not sure''))"
    by code_simp
  show ?thesis
    unfolding fallback_intelligent_analysis_def process_user_input_def Let_def
    by (simp only: unsure no_repeat no_clarify skip if_True if_False simp_thms meta_result_def
        conversation_result.simps)
qed


section \<open>The invariants hold in every reachable state\<close>

lemma turn_other:
  assumes "j \<noteq> i"
  shows "active_interviews (fst (process_voice_response_obj ObjectId env s i u rt)) j
         = active_interviews s j"
proof (cases "active_interviews s i")
  case None
  then show ?thesis by (simp add: turn_not_found)
next
  case (Some d)
  show ?thesis
  proof (cases "current_question_index d < length (questions d)")
    case False
    with Some show ?thesis by (simp add: turn_exhausted)
  next
    case True
    from turn_summary [OF Some True, of ObjectId env u rt] assms show ?thesis
      by (auto simp: store_def move_other)
  qed
qed

text \<open>What a turn that runs leaves behind: the session object, and the entry of the table.\<close>

lemma turn_object:
  assumes "active_interviews s i = Some d" "current_question_index d < length (questions d)"
  obtains d' where
    "fst (snd (process_voice_response_obj ObjectId env s i u rt)) = Some d'"
    "questions d' = questions d"
    "current_question_index d' = current_question_index d
       \<or> current_question_index d' = current_question_index d + 1 \<and> follow_up_count d' = 0"
    "status d' = (if current_question_index d' < length (questions d) then status d
                  else ''completed'')"
    "follow_up_count d < 2 \<Longrightarrow> follow_up_count d' < 2"
    "ObjectId i \<noteq> None \<Longrightarrow>
       active_interviews (fst (process_voice_response_obj ObjectId env s i u rt)) i
         = (if current_question_index d' < length (questions d) then Some d' else None)"
  using turn_summary [OF assms, of ObjectId env u rt] assms(2)
  by (elim disjE exE conjE) (simp_all add: store_def move_status move_entry)

lemma sessions_ok_turn:
  assumes "sessions_ok ObjectId s"
  shows "sessions_ok ObjectId (fst (process_voice_response_obj ObjectId env s i u rt))"
  unfolding sessions_ok_def
proof (intro allI impI)
  fix j d'
  assume entry: "active_interviews (fst (process_voice_response_obj ObjectId env s i u rt)) j = Some d'"
  show "current_question_index d' \<le> length (questions d') \<and> follow_up_count d' < 2
        \<and> status d' = ''active'' \<and> ObjectId j \<noteq> None"
  proof (cases "j = i")
    case False
    with entry assms show ?thesis by (simp add: turn_other sessions_ok_def)
  next
    case True
    show ?thesis
    proof (cases "active_interviews s i")
      case None
      with entry True show ?thesis by (simp add: turn_not_found)
    next
      case (Some d)
      with assms have d: "current_question_index d \<le> length (questions d)" "follow_up_count d < 2"
        "status d = ''active''" "ObjectId i \<noteq> None"
        by (auto simp: sessions_ok_def)
      show ?thesis
      proof (cases "current_question_index d < length (questions d)")
        case False
        with Some entry True d show ?thesis by (simp add: turn_exhausted)
      next
        case inside: True
        obtain d'' where o:
          "questions d'' = questions d"
          "status d'' = (if current_question_index d'' < length (questions d) then status d
                         else ''completed'')"
          "follow_up_count d'' < 2"
          "active_interviews (fst (process_voice_response_obj ObjectId env s i u rt)) i
             = (if current_question_index d'' < length (questions d) then Some d'' else None)"
          using turn_object [OF Some inside, of ObjectId env u rt] d(2,4) by metis
        from o(4) entry True have "current_question_index d'' < length (questions d)" "d' = d''"
          by (auto split: if_splits)
        with o d True show ?thesis by simp
      qed
    qed
  qed
qed

lemma docs_ok_update_one:
  assumes "docs_ok s"
    and "\<And>doc. doc_status doc = ''completed'' \<longrightarrow> doc_completed_at doc \<noteq> None
           \<Longrightarrow> doc_status (f doc) = ''completed'' \<longrightarrow> doc_completed_at (f doc) \<noteq> None"
  shows "docs_ok (s\<lparr>db_interviews := update_one k f (db_interviews s)\<rparr>)"
  using assms unfolding docs_ok_def update_one_def
  by (auto split: option.splits if_splits)

lemma docs_ok_cong:
  "db_interviews s' = db_interviews s \<Longrightarrow> docs_ok s' = docs_ok s"
  by (simp add: docs_ok_def)

lemma docs_ok_store [simp]: "docs_ok (store i d s) = docs_ok s"
  by (simp add: docs_ok_def store_def)

lemma docs_ok_complete_interview:
  assumes "docs_ok s"
  shows "docs_ok (fst (complete_interview ObjectId t s i))"
proof -
  have "docs_ok (s\<lparr>db_interviews := update_one k (\<lambda>doc. doc\<lparr>doc_status := ''completed'',
            doc_conversation := Some c, doc_completed_at := Some t\<rparr>) (db_interviews s)\<rparr>)" for k c
    using assms by (rule docs_ok_update_one) simp
  then show ?thesis
    using assms
    by (auto simp: complete_interview_def docs_ok_def split: option.splits)
qed

lemma docs_ok_save:
  assumes "docs_ok s"
  shows "docs_ok (save_response_analysis ObjectId env s i q u rt cr)"
proof (cases "ObjectId i")
  case None
  with assms show ?thesis by (simp add: save_response_analysis_def)
next
  case (Some k)
  then show ?thesis
    unfolding save_response_analysis_def using assms
    by (simp add: docs_ok_update_one)
qed

lemma docs_ok_move:
  assumes "docs_ok s"
  shows "docs_ok (fst (move_to_next_question ObjectId t s d rd i))"
  using assms by (subst move_world) (simp add: docs_ok_complete_interview)

lemma docs_ok_turn:
  assumes "docs_ok s"
  shows "docs_ok (fst (process_voice_response_obj ObjectId env s i u rt))"
proof (cases "active_interviews s i")
  case None
  with assms show ?thesis by (simp add: turn_not_found)
next
  case (Some d)
  show ?thesis
  proof (cases "current_question_index d < length (questions d)")
    case False
    with Some assms show ?thesis by (simp add: turn_exhausted)
  next
    case True
    from turn_summary [OF Some True, of ObjectId env u rt] assms show ?thesis
      by (auto simp: docs_ok_move docs_ok_save)
  qed
qed

lemma docs_ok_db_update:
  assumes "docs_ok s"
    and "db_interviews s' = db_interviews s \<or> db_interviews s' = update_one k f (db_interviews s)"
    and "\<And>doc. doc_status doc = ''completed'' \<longrightarrow> doc_completed_at doc \<noteq> None
           \<Longrightarrow> doc_status (f doc) = ''completed'' \<longrightarrow> doc_completed_at (f doc) \<noteq> None"
  shows "docs_ok s'"
proof -
  have "docs_ok (s\<lparr>db_interviews := update_one k f (db_interviews s)\<rparr>)"
    using assms(1,3) by (rule docs_ok_update_one)
  with assms(1,2) show ?thesis
    by (auto simp: docs_ok_def)
qed

lemma start_voice_db [simp]:
  "db_interviews (fst (start_voice_interview ObjectId t s i)) = db_interviews s"
  by (simp add: start_voice_interview_def store_def Let_def split: option.splits list.splits)

lemma start_voice_entries:
  assumes "active_interviews (fst (start_voice_interview ObjectId t s i)) j = Some d"
  shows "active_interviews s j = Some d
         \<or> (j = i \<and> ObjectId i \<noteq> None \<and> current_question_index d = 0
              \<and> follow_up_count d = 0 \<and> status d = ''active'')"
proof (cases "ObjectId i")
  case None
  with assms show ?thesis by (simp add: start_voice_interview_def)
next
  case (Some k)
  show ?thesis
  proof (cases "db_interviews s k")
    case None
    with Some assms show ?thesis by (simp add: start_voice_interview_def)
  next
    case doc: (Some interview)
    show ?thesis
    proof (cases "doc_questions interview")
      case Nil
      with Some doc assms show ?thesis
        by (auto simp: start_voice_interview_def Let_def store_def split: if_splits)
    next
      case (Cons q qs)
      with Some doc assms show ?thesis
        by (auto simp: start_voice_interview_def Let_def store_def append_event_def
            split: if_splits)
    qed
  qed
qed

lemma sessions_ok_start_voice:
  assumes "sessions_ok ObjectId s"
  shows "sessions_ok ObjectId (fst (start_voice_interview ObjectId t s i))"
  unfolding sessions_ok_def
proof (intro allI impI)
  fix j d
  assume "active_interviews (fst (start_voice_interview ObjectId t s i)) j = Some d"
  from start_voice_entries [OF this] assms
  show "current_question_index d \<le> length (questions d) \<and> follow_up_count d < 2
        \<and> status d = ''active'' \<and> ObjectId j \<noteq> None"
    by (auto simp: sessions_ok_def)
qed

lemma sessions_ok_complete_interview:
  assumes "sessions_ok ObjectId s"
  shows "sessions_ok ObjectId (fst (complete_interview ObjectId t s i))"
  unfolding sessions_ok_def
proof (intro allI impI)
  fix j d
  assume "active_interviews (fst (complete_interview ObjectId t s i)) j = Some d"
  then have "active_interviews s j = Some d"
    by (simp add: complete_interview_def split: option.splits if_splits)
  with assms
  show "current_question_index d \<le> length (questions d) \<and> follow_up_count d < 2
        \<and> status d = ''active'' \<and> ObjectId j \<noteq> None"
    by (simp add: sessions_ok_def)
qed

lemma set_route_active [simp]:
  "active_interviews (fst (set_route ObjectId f m s i)) = active_interviews s"
  by (simp add: set_route_def Let_def split: option.splits)

lemma set_route_db:
  "db_interviews (fst (set_route ObjectId f m s i)) =
     (case ObjectId i of None \<Rightarrow> db_interviews s | Some k \<Rightarrow> update_one k f (db_interviews s))"
  by (simp add: set_route_def Let_def split: option.splits)

lemma docs_ok_set_route:
  assumes "docs_ok s"
    and "\<And>doc. doc_status doc = ''completed'' \<longrightarrow> doc_completed_at doc \<noteq> None
           \<Longrightarrow> doc_status (f doc) = ''completed'' \<longrightarrow> doc_completed_at (f doc) \<noteq> None"
  shows "docs_ok (fst (set_route ObjectId f m s i))"
proof (rule docs_ok_db_update [OF assms(1) _ assms(2)])
  show "db_interviews (fst (set_route ObjectId f m s i)) = db_interviews s
        \<or> db_interviews (fst (set_route ObjectId f m s i))
            = update_one (the (ObjectId i)) f (db_interviews s)"
    by (simp add: set_route_db split: option.splits)
qed

lemma route_submit_active [simp]:
  "active_interviews (fst (route_submit_response ObjectId payload s i resp)) = active_interviews s"
  by (simp add: route_submit_response_def split: option.splits)

lemma route_submit_db:
  "db_interviews (fst (route_submit_response ObjectId payload s i resp)) = db_interviews s
   \<or> db_interviews (fst (route_submit_response ObjectId payload s i resp)) =
        update_one (the (ObjectId i))
          (\<lambda>doc. doc\<lparr>doc_responses := doc_responses doc @
                     [resp\<lparr>rr_analysis := payload, rr_conversation_quality := None\<rparr>]\<rparr>)
          (db_interviews s)"
  by (simp add: route_submit_response_def split: option.splits)

lemma route_start_voice_active [simp]:
  "active_interviews (fst (route_start_voice_interview ObjectId t ut s i)) =
     active_interviews (fst (start_voice_interview ObjectId t s i))"
  by (simp add: route_start_voice_interview_def split: prod.splits option.splits)

lemma route_start_voice_db:
  "db_interviews (fst (route_start_voice_interview ObjectId t ut s i)) = db_interviews s
   \<or> db_interviews (fst (route_start_voice_interview ObjectId t ut s i)) =
        update_one (the (ObjectId i))
          (\<lambda>doc. doc\<lparr>doc_status := ''in_progress'', doc_started_at := Some ut\<rparr>)
          (db_interviews s)"
proof (cases "start_voice_interview ObjectId t s i")
  case (Pair s1 r)
  then have "db_interviews s1 = db_interviews s"
    using start_voice_db [of ObjectId t s i] by simp
  with Pair show ?thesis
    by (simp add: route_start_voice_interview_def split: option.splits)
qed

lemma route_voice_response_world:
  "fst (route_process_voice_response ObjectId env s i body) =
     (if strip (get_or (req_response body) []) = [] then s
      else fst (process_voice_response_obj ObjectId env s i (get_or (req_response body) [])
                  (get_or (req_response_time body) 0)))"
  by (simp add: route_process_voice_response_def Let_def process_voice_response_def
      split: prod.splits sum.splits)

lemma route_complete_voice_world:
  "fst (route_complete_voice_interview ObjectId t s i) = fst (complete_interview ObjectId t s i)"
  by (simp add: route_complete_voice_interview_def split: prod.splits bool.splits)

lemma reachable_invariants:
  assumes "reachable ObjectId s"
  shows "sessions_ok ObjectId s \<and> docs_ok s"
  using assms
proof (induction rule: reachable.induct)
  case r_init
  show ?case by (simp add: sessions_ok_def docs_ok_def initial_world_def)
next
  case (r_generate s k resume_id level qs utcnow)
  then show ?case
    by (simp add: sessions_ok_def docs_ok_def insert_interview_def)
next
  case (r_start s utcnow interview_id)
  then have "sessions_ok ObjectId (fst (route_start_interview ObjectId utcnow s interview_id))"
    by (simp add: sessions_ok_def route_start_interview_def)
  moreover have "docs_ok (fst (route_start_interview ObjectId utcnow s interview_id))"
    unfolding route_start_interview_def using r_start.IH
    by (intro docs_ok_set_route) simp_all
  ultimately show ?case by simp
next
  case (r_submit s payload interview_id resp)
  have "docs_ok (fst (route_submit_response ObjectId payload s interview_id resp))"
    using r_submit.IH
    by (intro docs_ok_db_update [OF _ route_submit_db [of ObjectId payload s interview_id resp]])
       simp_all
  moreover have "sessions_ok ObjectId (fst (route_submit_response ObjectId payload s interview_id resp))"
    using r_submit.IH by (simp add: sessions_ok_def)
  ultimately show ?case by simp
next
  case (r_complete s utcnow interview_id)
  then have "sessions_ok ObjectId (fst (route_complete_interview ObjectId utcnow s interview_id))"
    by (simp add: sessions_ok_def route_complete_interview_def)
  moreover have "docs_ok (fst (route_complete_interview ObjectId utcnow s interview_id))"
    unfolding route_complete_interview_def using r_complete.IH
    by (intro docs_ok_set_route) simp_all
  ultimately show ?case by simp
next
  case (r_start_voice s clock utcnow interview_id)
  have "docs_ok (fst (route_start_voice_interview ObjectId clock utcnow s interview_id))"
    using r_start_voice.IH
    by (intro docs_ok_db_update
          [OF _ route_start_voice_db [of ObjectId clock utcnow s interview_id]]) simp_all
  moreover have "sessions_ok ObjectId (fst (route_start_voice_interview ObjectId clock utcnow s interview_id))"
    using r_start_voice.IH sessions_ok_start_voice [of ObjectId s clock interview_id]
    by (simp add: sessions_ok_def)
  ultimately show ?case by simp
next
  case (r_voice_response s env interview_id body)
  then show ?case
    by (simp add: route_voice_response_world sessions_ok_turn docs_ok_turn)
next
  case (r_complete_voice s clock interview_id)
  then show ?case
    by (simp add: route_complete_voice_world sessions_ok_complete_interview
        docs_ok_complete_interview)
qed


section \<open>What a turn writes to the collection\<close>

lemma update_one_defined [simp]: "(update_one k f db k' = None) = (db k' = None)"
  by (simp add: update_one_def split: option.splits)

lemma update_one_other: "k' \<noteq> k \<Longrightarrow> update_one k f db k' = db k'"
  by (simp add: update_one_def split: option.splits)

lemma update_one_same: "update_one k f db k = map_option f (db k)"
  by (simp add: update_one_def split: option.splits)

lemma store_db [simp]: "db_interviews (store i d s) = db_interviews s"
  by (simp add: store_def)

lemma store_active [simp]: "active_interviews (store i d s) = (active_interviews s)(i \<mapsto> d)"
  by (simp add: store_def)

lemma complete_interview_db:
  "db_interviews (fst (complete_interview ObjectId t s i)) =
     (case (active_interviews s i, ObjectId i) of
        (Some d, Some k) \<Rightarrow>
          update_one k (\<lambda>doc. doc\<lparr>doc_status := ''completed'',
                                   doc_conversation := Some (conversation d),
                                   doc_completed_at := Some t\<rparr>) (db_interviews s)
      | _ \<Rightarrow> db_interviews s)"
  by (simp add: complete_interview_def split: option.splits)

lemma complete_interview_defined:
  "(db_interviews (fst (complete_interview ObjectId t s i)) k = None) = (db_interviews s k = None)"
  by (cases "active_interviews s i"; cases "ObjectId i") (simp_all add: complete_interview_db)

lemma move_db:
  "db_interviews (fst (move_to_next_question ObjectId t s d rd i)) =
     (if current_question_index d + 1 < length (questions d) then db_interviews s
      else (case ObjectId i of
              None \<Rightarrow> db_interviews s
            | Some k \<Rightarrow>
                update_one k
                  (\<lambda>doc. doc\<lparr>doc_status := ''completed'',
                     doc_conversation :=
                       Some (conversation (fst (snd (move_to_next_question ObjectId t s d rd i)))),
                     doc_completed_at := Some t\<rparr>) (db_interviews s)))"
  by (subst move_world) (simp add: complete_interview_db split: option.splits)

lemma save_db:
  "db_interviews (save_response_analysis ObjectId env s i q u rt cr) =
     (case ObjectId i of
        None \<Rightarrow> db_interviews s
      | Some k \<Rightarrow>
          update_one k
            (\<lambda>doc. doc\<lparr>doc_responses := doc_responses doc @
               [\<lparr>rr_question_id = q_id q, rr_question_text = question_text q,
                 rr_user_response = u, rr_response_time = rt,
                 rr_analysis = analyzer_result env,
                 rr_conversation_quality = Some (get_or (response_quality cr) ''fair''),
                 rr_timestamp = now env\<rparr>]\<rparr>)
            (db_interviews s))"
  by (simp add: save_response_analysis_def split: option.splits)

lemma move_defined [simp]:
  "(db_interviews (fst (move_to_next_question ObjectId t s d rd i)) k = None)
     = (db_interviews s k = None)"
  by (simp add: move_db split: option.splits)

lemma save_defined [simp]:
  "(db_interviews (save_response_analysis ObjectId env s i q u rt cr) k = None)
     = (db_interviews s k = None)"
  by (simp add: save_db split: option.splits)

lemma turn_defined:
  "(db_interviews (fst (process_voice_response_obj ObjectId env s i u rt)) k = None)
     = (db_interviews s k = None)"
proof (cases "active_interviews s i")
  case None
  then show ?thesis by (simp add: turn_not_found)
next
  case (Some d)
  show ?thesis
  proof (cases "current_question_index d < length (questions d)")
    case False
    with Some show ?thesis by (simp add: turn_exhausted)
  next
    case True
    from turn_summary [OF Some True, of ObjectId env u rt] show ?thesis
      by (elim disjE exE conjE) simp_all
  qed
qed

lemma responses_of_move [simp]:
  "responses_of (fst (move_to_next_question ObjectId t s d rd i)) k = responses_of s k"
  by (simp add: responses_of_def move_db update_one_def split: option.splits)

lemma responses_of_store [simp]: "responses_of (store i d s) k = responses_of s k"
  by (simp add: responses_of_def)

lemma responses_of_save:
  "responses_of (save_response_analysis ObjectId env s i q u rt cr) k =
     (if ObjectId i = Some k \<and> db_interviews s k \<noteq> None
      then responses_of s k @
             [\<lparr>rr_question_id = q_id q, rr_question_text = question_text q,
               rr_user_response = u, rr_response_time = rt,
               rr_analysis = analyzer_result env,
               rr_conversation_quality = Some (get_or (response_quality cr) ''fair''),
               rr_timestamp = now env\<rparr>]
      else responses_of s k)"
  by (auto simp: responses_of_def save_db update_one_def split: option.splits)


section \<open>Sessions and their documents\<close>

lemma turn_entry_was_there:
  assumes "active_interviews (fst (process_voice_response_obj ObjectId env s i u rt)) j = Some d'"
  shows "active_interviews s j \<noteq> None"
proof (cases "j = i")
  case False
  with assms show ?thesis by (simp add: turn_other)
next
  case True
  show ?thesis
  proof (cases "active_interviews s i")
    case None
    with assms True show ?thesis by (simp add: turn_not_found)
  next
    case (Some d)
    with True show ?thesis by simp
  qed
qed

lemma sessions_stored_turn:
  assumes "sessions_stored ObjectId s"
  shows "sessions_stored ObjectId (fst (process_voice_response_obj ObjectId env s i u rt))"
  unfolding sessions_stored_def
proof (intro allI impI)
  fix j d'
  assume "active_interviews (fst (process_voice_response_obj ObjectId env s i u rt)) j = Some d'"
  then have "active_interviews s j \<noteq> None" by (rule turn_entry_was_there)
  with assms obtain k doc where "ObjectId j = Some k" "db_interviews s k = Some doc"
    by (auto simp: sessions_stored_def)
  then show "\<exists>k doc. ObjectId j = Some k
      \<and> db_interviews (fst (process_voice_response_obj ObjectId env s i u rt)) k = Some doc"
    using turn_defined [of ObjectId env s i u rt k] by auto
qed

lemma sessions_stored_db_update:
  assumes "sessions_stored ObjectId s"
    and "active_interviews s' = active_interviews s"
    and "db_interviews s' = db_interviews s \<or> db_interviews s' = update_one k f (db_interviews s)"
  shows "sessions_stored ObjectId s'"
  unfolding sessions_stored_def
proof (intro allI impI)
  fix j d
  assume "active_interviews s' j = Some d"
  with assms(1,2) obtain k' doc where k': "ObjectId j = Some k'" "db_interviews s k' = Some doc"
    by (auto simp: sessions_stored_def)
  from assms(3) k'(2) have "db_interviews s' k' \<noteq> None"
    by (elim disjE) simp_all
  with k'(1) show "\<exists>k doc. ObjectId j = Some k \<and> db_interviews s' k = Some doc"
    by auto
qed

lemma start_voice_entry_stored:
  assumes "active_interviews (fst (start_voice_interview ObjectId t s i)) j = Some d"
  shows "active_interviews s j = Some d
         \<or> (j = i \<and> (\<exists>k doc. ObjectId i = Some k \<and> db_interviews s k = Some doc))"
  using assms
  by (auto simp: start_voice_interview_def Let_def split: option.splits list.splits if_splits)

lemma sessions_stored_start_voice:
  assumes "sessions_stored ObjectId s"
  shows "sessions_stored ObjectId (fst (start_voice_interview ObjectId t s i))"
  unfolding sessions_stored_def
proof (intro allI impI)
  fix j d
  assume "active_interviews (fst (start_voice_interview ObjectId t s i)) j = Some d"
  from start_voice_entry_stored [OF this] assms
  show "\<exists>k doc. ObjectId j = Some k
          \<and> db_interviews (fst (start_voice_interview ObjectId t s i)) k = Some doc"
    by (auto simp: sessions_stored_def)
qed

lemma sessions_stored_complete_interview:
  assumes "sessions_stored ObjectId s"
  shows "sessions_stored ObjectId (fst (complete_interview ObjectId t s i))"
  unfolding sessions_stored_def
proof (intro allI impI)
  fix j d
  assume "active_interviews (fst (complete_interview ObjectId t s i)) j = Some d"
  then have "active_interviews s j = Some d"
    by (simp add: complete_interview_def split: option.splits if_splits)
  with assms obtain k doc where k: "ObjectId j = Some k" "db_interviews s k = Some doc"
    by (auto simp: sessions_stored_def)
  have "db_interviews (fst (complete_interview ObjectId t s i)) k \<noteq> None"
    using k(2) by (simp add: complete_interview_defined)
  with k(1) show "\<exists>k doc. ObjectId j = Some k
          \<and> db_interviews (fst (complete_interview ObjectId t s i)) k = Some doc"
    by auto
qed

lemma sessions_stored_set_route:
  assumes "sessions_stored ObjectId s"
  shows "sessions_stored ObjectId (fst (set_route ObjectId f m s i))"
  using assms
proof (rule sessions_stored_db_update)
  show "db_interviews (fst (set_route ObjectId f m s i)) = db_interviews s
        \<or> db_interviews (fst (set_route ObjectId f m s i))
            = update_one (the (ObjectId i)) f (db_interviews s)"
    by (simp add: set_route_db split: option.splits)
qed simp

lemma reachable_stored:
  assumes "reachable ObjectId s"
  shows "sessions_stored ObjectId s"
  using assms
proof (induction rule: reachable.induct)
  case r_init
  show ?case by (simp add: sessions_stored_def initial_world_def)
next
  case (r_generate s k resume_id level qs utcnow)
  show ?case
    unfolding sessions_stored_def
  proof (intro allI impI)
    fix j d
    assume "active_interviews (insert_interview k resume_id level qs utcnow s) j = Some d"
    then have "active_interviews s j = Some d"
      by (simp add: insert_interview_def)
    with r_generate.IH obtain k' doc where k': "ObjectId j = Some k'" "db_interviews s k' = Some doc"
      by (auto simp: sessions_stored_def)
    with r_generate.hyps(2) have "k' \<noteq> k" by auto
    with k' show "\<exists>k' doc. ObjectId j = Some k'
        \<and> db_interviews (insert_interview k resume_id level qs utcnow s) k' = Some doc"
      by (simp add: insert_interview_def)
  qed
next
  case (r_start s utcnow interview_id)
  then show ?case
    by (simp add: route_start_interview_def sessions_stored_set_route)
next
  case (r_submit s payload interview_id resp)
  from r_submit.IH show ?case
    by (rule sessions_stored_db_update [OF _ _ route_submit_db]) simp
next
  case (r_complete s utcnow interview_id)
  then show ?case
    by (simp add: route_complete_interview_def sessions_stored_set_route)
next
  case (r_start_voice s clock utcnow interview_id)
  have "sessions_stored ObjectId (fst (start_voice_interview ObjectId clock s interview_id))"
    using r_start_voice.IH by (rule sessions_stored_start_voice)
  then show ?case
  proof (rule sessions_stored_db_update)
    show "db_interviews (fst (route_start_voice_interview ObjectId clock utcnow s interview_id)) =
            db_interviews (fst (start_voice_interview ObjectId clock s interview_id))
          \<or> db_interviews (fst (route_start_voice_interview ObjectId clock utcnow s interview_id)) =
            update_one (the (ObjectId interview_id))
              (\<lambda>doc. doc\<lparr>doc_status := ''in_progress'', doc_started_at := Some utcnow\<rparr>)
              (db_interviews (fst (start_voice_interview ObjectId clock s interview_id)))"
      using route_start_voice_db [of ObjectId clock utcnow s interview_id] by simp
  qed simp
next
  case (r_voice_response s env interview_id body)
  then show ?case
    by (simp add: route_voice_response_world sessions_stored_turn)
next
  case (r_complete_voice s clock interview_id)
  then show ?case
    by (simp add: route_complete_voice_world sessions_stored_complete_interview)
qed


section \<open>The example states\<close>

lemma reachable_stored_example: "reachable oid24 (stored qs)"
  unfolding stored_def
  by (rule r_generate [OF r_init]) (simp add: initial_world_def)

lemma reachable_started: "reachable oid24 (started qs)"
  unfolding started_def by (rule r_start_voice [OF reachable_stored_example])

lemma started_entry:
  "active_interviews (started (q # qs)) id_a = Some (session_at_start 2 q qs)"
  by (simp add: started_def stored_def route_start_voice_interview_def start_voice_interview_def
      insert_interview_def initial_world_def oid24_def id_a_def Let_def store_def
      append_event_def session_at_start_def update_one_def)


section \<open>Progress through the questions\<close>

lemma turn_completion:
  assumes "active_interviews s i = Some d" "current_question_index d < length (questions d)"
    and "ObjectId i = Some k" "db_interviews s k = Some doc"
    and "fst (snd (process_voice_response_obj ObjectId env s i u rt)) = Some d'"
    and "current_question_index d' = length (questions d)"
  shows "current_question_index d' = current_question_index d + 1
       \<and> last (conversation d') = completion_event (now env)
       \<and> (\<exists>doc'. db_interviews (fst (process_voice_response_obj ObjectId env s i u rt)) k = Some doc'
             \<and> doc_status doc' = ''completed''
             \<and> doc_conversation doc' = Some (conversation d')
             \<and> doc_completed_at doc' = Some (now env))"
proof -
  let ?P = "process_voice_response_obj ObjectId env s i u rt"
  from turn_summary [OF assms(1,2), of ObjectId env u rt]
  consider (stay) d'' where "fst (snd ?P) = Some d''"
      "current_question_index d'' = current_question_index d"
    | (advance) s0 d0 rd where
      "fst ?P = fst (move_to_next_question ObjectId (now env) s0 d0 rd i)"
      "fst (snd ?P) = Some (fst (snd (move_to_next_question ObjectId (now env) s0 d0 rd i)))"
      "current_question_index d0 = current_question_index d" "questions d0 = questions d"
      "s0 = s \<or> s0 = save_response_analysis ObjectId env s i
                              (questions d ! current_question_index d) u rt (resolve_turn env d u)"
    by blast
  then show ?thesis
  proof cases
    case stay
    with assms(2,5,6) show ?thesis by simp
  next
    case advance
    note w = advance(1) and o = advance(2) and d0 = advance(3,4) and s0 = advance(5)
  from o assms(5) have d': "d' = fst (snd (move_to_next_question ObjectId (now env) s0 d0 rd i))"
    by simp
  with assms(6) d0 have last: "\<not> current_question_index d0 + 1 < length (questions d0)"
    by simp
  from s0 assms(4) have "db_interviews s0 k \<noteq> None"
    by (elim disjE) (simp_all del: not_None_eq)
  then obtain doc0 where doc0: "db_interviews s0 k = Some doc0"
    by auto
  have "current_question_index d' = current_question_index d + 1"
    using d' d0 by simp
  moreover have "last (conversation d') = completion_event (now env)"
    using d' last by (simp add: move_obj completion_event_def)
  moreover have "\<exists>doc'. db_interviews (fst (process_voice_response_obj ObjectId env s i u rt)) k = Some doc'
             \<and> doc_status doc' = ''completed''
             \<and> doc_conversation doc' = Some (conversation d')
             \<and> doc_completed_at doc' = Some (now env)"
    unfolding w d' using last doc0 assms(3)
    by (simp add: move_db update_one_same)
  ultimately show ?thesis by simp
  qed
qed

text \<open>
  The progress of a session as the code keeps it. In every reachable state, every session of the
  table has its question index within its question list and is not completed. A turn on a
  session whose index equals the number of questions is not processed: the state is unchanged
  and the caller gets an error. A turn that is processed leaves the session object with the same
  questions and an index still within them, and its status is \<open>completed\<close> exactly when the
  index has reached the number of questions; when that happens the turn advanced past the last
  question, the completion event is the last event of the transcript, and teardown ran: the
  entry is gone from the table, so that every later turn on that id is refused with the state
  unchanged, and the stored document is completed with that transcript.
\<close>

theorem index_bounded_and_completion:
  assumes "reachable ObjectId s" and "active_interviews s i = Some d"
  shows "current_question_index d \<le> length (questions d) \<and> status d \<noteq> ''completed''
    \<and> (current_question_index d = length (questions d) \<longrightarrow>
          process_voice_response ObjectId env s i u rt = (s, Inl ''No more questions available''))
    \<and> (current_question_index d < length (questions d) \<longrightarrow>
          (\<exists>d'. fst (snd (process_voice_response_obj ObjectId env s i u rt)) = Some d'
             \<and> questions d' = questions d
             \<and> current_question_index d' \<le> length (questions d')
             \<and> (status d' = ''completed'' \<longleftrightarrow> current_question_index d' = length (questions d'))
             \<and> (current_question_index d' = length (questions d') \<longrightarrow>
                  current_question_index d' = current_question_index d + 1
                  \<and> last (conversation d') = completion_event (now env)
                  \<and> active_interviews (fst (process_voice_response ObjectId env s i u rt)) i = None
                  \<and> (\<forall>env' u' rt'.
                        process_voice_response ObjectId env'
                          (fst (process_voice_response ObjectId env s i u rt)) i u' rt'
                        = (fst (process_voice_response ObjectId env s i u rt),
                           Inl ''Interview not found or not active''))
                  \<and> (\<exists>k doc'. ObjectId i = Some k
                        \<and> db_interviews (fst (process_voice_response ObjectId env s i u rt)) k = Some doc'
                        \<and> doc_status doc' = ''completed''
                        \<and> doc_conversation doc' = Some (conversation d')
                        \<and> doc_completed_at doc' = Some (now env)))))"
proof -
  from assms have ok: "current_question_index d \<le> length (questions d)" "status d = ''active''"
    "ObjectId i \<noteq> None"
    using reachable_invariants [OF assms(1)] by (auto simp: sessions_ok_def)
  from assms obtain k doc where k: "ObjectId i = Some k" "db_interviews s k = Some doc"
    using reachable_stored [OF assms(1)] by (auto simp: sessions_stored_def)
  have exhausted: "process_voice_response ObjectId env s i u rt = (s, Inl ''No more questions available'')"
    if "current_question_index d = length (questions d)"
    using that assms(2) by (simp add: process_voice_response_def turn_exhausted)
  have running: "\<exists>d'. fst (snd (process_voice_response_obj ObjectId env s i u rt)) = Some d'
             \<and> questions d' = questions d
             \<and> current_question_index d' \<le> length (questions d')
             \<and> (status d' = ''completed'' \<longleftrightarrow> current_question_index d' = length (questions d'))
             \<and> (current_question_index d' = length (questions d') \<longrightarrow>
                  current_question_index d' = current_question_index d + 1
                  \<and> last (conversation d') = completion_event (now env)
                  \<and> active_interviews (fst (process_voice_response ObjectId env s i u rt)) i = None
                  \<and> (\<forall>env' u' rt'.
                        process_voice_response ObjectId env'
                          (fst (process_voice_response ObjectId env s i u rt)) i u' rt'
                        = (fst (process_voice_response ObjectId env s i u rt),
                           Inl ''Interview not found or not active''))
                  \<and> (\<exists>k doc'. ObjectId i = Some k
                        \<and> db_interviews (fst (process_voice_response ObjectId env s i u rt)) k = Some doc'
                        \<and> doc_status doc' = ''completed''
                        \<and> doc_conversation doc' = Some (conversation d')
                        \<and> doc_completed_at doc' = Some (now env)))"
    if inside: "current_question_index d < length (questions d)"
  proof -
    obtain d' where d':
      "fst (snd (process_voice_response_obj ObjectId env s i u rt)) = Some d'"
      "questions d' = questions d"
      "current_question_index d' = current_question_index d
         \<or> current_question_index d' = current_question_index d + 1 \<and> follow_up_count d' = 0"
      "status d' = (if current_question_index d' < length (questions d) then status d
                    else ''completed'')"
      "active_interviews (fst (process_voice_response_obj ObjectId env s i u rt)) i
         = (if current_question_index d' < length (questions d) then Some d' else None)"
      using turn_object [OF assms(2) inside, of ObjectId env u rt] ok(3) by metis
    from d'(3) inside have le: "current_question_index d' \<le> length (questions d')"
      using d'(2) by auto
    have iff: "status d' = ''completed'' \<longleftrightarrow> current_question_index d' = length (questions d')"
      using d'(2,4) le ok(2) by auto
    have at_end: "current_question_index d' = current_question_index d + 1
                  \<and> last (conversation d') = completion_event (now env)
                  \<and> active_interviews (fst (process_voice_response ObjectId env s i u rt)) i = None
                  \<and> (\<forall>env' u' rt'.
                        process_voice_response ObjectId env'
                          (fst (process_voice_response ObjectId env s i u rt)) i u' rt'
                        = (fst (process_voice_response ObjectId env s i u rt),
                           Inl ''Interview not found or not active''))
                  \<and> (\<exists>k doc'. ObjectId i = Some k
                        \<and> db_interviews (fst (process_voice_response ObjectId env s i u rt)) k = Some doc'
                        \<and> doc_status doc' = ''completed''
                        \<and> doc_conversation doc' = Some (conversation d')
                        \<and> doc_completed_at doc' = Some (now env))"
      if "current_question_index d' = length (questions d')"
    proof -
      from that d'(2,5)
      have gone: "active_interviews (fst (process_voice_response ObjectId env s i u rt)) i = None"
        by (simp add: process_voice_response_proj)
      then have "process_voice_response ObjectId env'
                   (fst (process_voice_response ObjectId env s i u rt)) i u' rt'
                 = (fst (process_voice_response ObjectId env s i u rt),
                    Inl ''Interview not found or not active'')" for env' u' rt'
        by (simp add: process_voice_response_def turn_not_found)
      with gone turn_completion [OF assms(2) inside k d'(1)] that d'(2) k(1)
      show ?thesis
        by (simp add: process_voice_response_proj)
    qed
    from d'(1,2) le iff at_end show ?thesis by blast
  qed
  from ok(1,2) exhausted running show ?thesis by simp
qed

theorem index_bounded_and_completion_witness:
  "reachable oid24 (started [q1]) \<and> active_interviews (started [q1]) id_a = Some (session_at_start 2 q1 [])
   \<and> current_question_index (session_at_start 2 q1 []) < length (questions (session_at_start 2 q1 []))
   \<and> (\<exists>d'. fst (snd (process_voice_response_obj oid24 env0 (started [q1]) id_a long_answer 3)) = Some d'
         \<and> status d' = ''completed''
         \<and> current_question_index d' = length (questions d')
         \<and> active_interviews (fst (process_voice_response oid24 env0 (started [q1]) id_a long_answer 3)) id_a = None)"
proof -
  have a: "active_interviews (started [q1]) id_a = Some (session_at_start 2 q1 [])"
    by (rule started_entry)
  have inside: "current_question_index (session_at_start 2 q1 [])
                  < length (questions (session_at_start 2 q1 []))"
    by (simp add: session_at_start_def)
  have adv: "action (resolve_turn env0 (session_at_start 2 q1 []) long_answer) = ''continue''"
    by code_simp
  have obj: "current_question_index
      (fst (snd (move_to_next_question oid24 (now env0)
         (save_response_analysis oid24 env0 (started [q1]) id_a
            (questions (session_at_start 2 q1 []) ! current_question_index (session_at_start 2 q1 []))
            long_answer 3 (resolve_turn env0 (session_at_start 2 q1 []) long_answer))
         (answered env0 (session_at_start 2 q1 []) long_answer)
         (new_response_data (resolve_turn env0 (session_at_start 2 q1 []) long_answer)) id_a))) = 1"
    by (simp add: session_at_start_def)
  have fin: "process_voice_response_obj oid24 env0 (started [q1]) id_a long_answer 3 =
     returned
       (move_to_next_question oid24 (now env0)
          (save_response_analysis oid24 env0 (started [q1]) id_a
             (questions (session_at_start 2 q1 []) ! current_question_index (session_at_start 2 q1 []))
             long_answer 3 (resolve_turn env0 (session_at_start 2 q1 []) long_answer))
          (answered env0 (session_at_start 2 q1 []) long_answer)
          (new_response_data (resolve_turn env0 (session_at_start 2 q1 []) long_answer)) id_a)"
    by (rule turn_finish [OF a inside])
       (simp_all add: adv meta_actions_def follow_up_actions_def advance_actions_def)
  from index_bounded_and_completion [OF reachable_started a, of env0 long_answer 3] inside
  obtain d' where d': "fst (snd (process_voice_response_obj oid24 env0 (started [q1]) id_a long_answer 3)) = Some d'"
    "questions d' = questions (session_at_start 2 q1 [])"
    "status d' = ''completed'' \<longleftrightarrow> current_question_index d' = length (questions d')"
    "current_question_index d' = length (questions d') \<longrightarrow>
       active_interviews (fst (process_voice_response oid24 env0 (started [q1]) id_a long_answer 3)) id_a = None"
    by blast
  from d'(1) have "current_question_index d' = 1"
    unfolding fin using obj by simp
  with d'(2) have "current_question_index d' = length (questions d')"
    by (simp add: session_at_start_def)
  with d' reachable_started a inside show ?thesis by blast
qed


section \<open>Follow-ups and skips\<close>



text \<open>
  Claim C3. A turn whose resolved action is \<open>skip_question\<close> leaves the session object with its
  index increased by exactly 1 and its follow-up counter at 0, whatever the counter was, and
  the \<open>responses\<close> of every stored document are what they were: no record is saved. The entry
  of the table is that object when a next question exists, and is removed otherwise.
\<close>

theorem skip_advances_by_one:
  assumes "active_interviews s i = Some d"
    and "current_question_index d < length (questions d)"
    and "action (resolve_turn env d u) = ''skip_question''"
  shows "\<exists>d'. fst (snd (process_voice_response_obj ObjectId env s i u rt)) = Some d'
           \<and> current_question_index d' = current_question_index d + 1
           \<and> follow_up_count d' = 0
           \<and> (\<forall>k. responses_of (fst (process_voice_response ObjectId env s i u rt)) k
                     = responses_of s k)
           \<and> (ObjectId i \<noteq> None \<longrightarrow>
                active_interviews (fst (process_voice_response ObjectId env s i u rt)) i
                  = (if current_question_index d + 1 < length (questions d) then Some d' else None))"
  by (simp add: turn_skip [OF assms] process_voice_response_proj move_entry)

theorem skip_advances_by_one_witness:
  "active_interviews (started [q1, q2]) id_a = Some (session_at_start 2 q1 [q2])
   \<and> current_question_index (session_at_start 2 q1 [q2]) < length (questions (session_at_start 2 q1 [q2]))
   \<and> action (resolve_turn env0 (session_at_start 2 q1 [q2]) ''skip this one'') = ''skip_question''
   \<and> (\<exists>d'. active_interviews
              (fst (process_voice_response oid24 env0 (started [q1, q2]) id_a ''skip this one'' 3)) id_a
              = Some d'
          \<and> current_question_index d' = 1 \<and> follow_up_count d' = 0)
   \<and> responses_of (fst (process_voice_response oid24 env0 (started [q1, q2]) id_a ''skip this one'' 3)) id_a
       = []"
proof -
  have a: "active_interviews (started [q1, q2]) id_a = Some (session_at_start 2 q1 [q2])"
    by (rule started_entry)
  have inside: "current_question_index (session_at_start 2 q1 [q2])
                  < length (questions (session_at_start 2 q1 [q2]))"
    by (simp add: session_at_start_def)
  have act: "action (resolve_turn env0 (session_at_start 2 q1 [q2]) ''skip this one'') = ''skip_question''"
    by code_simp
  have facts: "current_question_index (session_at_start 2 q1 [q2]) = 0"
    "length (questions (session_at_start 2 q1 [q2])) = 2" "oid24 id_a \<noteq> None"
    "responses_of (started [q1, q2]) id_a = []"
    by (simp_all add: session_at_start_def oid24_def id_a_def responses_of_def started_def
        stored_def route_start_voice_interview_def start_voice_interview_def insert_interview_def
        initial_world_def Let_def update_one_def)
  from skip_advances_by_one [OF a inside act, of oid24 3] facts
  have "\<exists>d'. active_interviews
              (fst (process_voice_response oid24 env0 (started [q1, q2]) id_a ''skip this one'' 3)) id_a
              = Some d'
          \<and> current_question_index d' = 1 \<and> follow_up_count d' = 0"
    and "responses_of (fst (process_voice_response oid24 env0 (started [q1, q2]) id_a ''skip this one'' 3)) id_a
       = []"
    by auto
  with a inside act show ?thesis by blast
qed


section \<open>Rejected requests\<close>

lemma strip_blank: "strip u = [] \<longleftrightarrow> (\<forall>c\<in>set u. is_space c)"
proof -
  have "(\<forall>c\<in>set (dropWhile is_space u). is_space c) \<longleftrightarrow> (\<forall>c\<in>set u. is_space c)"
  proof
    assume rest: "\<forall>c\<in>set (dropWhile is_space u). is_space c"
    have "set u = set (takeWhile is_space u) \<union> set (dropWhile is_space u)"
      by (metis set_append takeWhile_dropWhile_id)
    with rest show "\<forall>c\<in>set u. is_space c"
      by (auto dest: set_takeWhileD)
  next
    assume "\<forall>c\<in>set u. is_space c"
    then show "\<forall>c\<in>set (dropWhile is_space u). is_space c"
      by (auto dest: set_dropWhileD)
  qed
  then show ?thesis
    by (simp add: strip_def dropWhile_eq_Nil_conv)
qed

lemma turn_errors:
  assumes "snd (snd (process_voice_response_obj ObjectId env s i u rt)) = Inl e"
  shows "e = ''Interview not found or not active'' \<or> e = ''No more questions available''"
proof (cases "active_interviews s i")
  case None
  with assms show ?thesis by (simp add: turn_not_found)
next
  case (Some d)
  show ?thesis
  proof (cases "current_question_index d < length (questions d)")
    case False
    with Some assms show ?thesis by (simp add: turn_exhausted)
  next
    case True
    with Some assms show ?thesis
      by (simp add: process_voice_response_obj_def Let_def returned_Inr)
  qed
qed

text \<open>
  Claim C8. A turn submission whose utterance is empty or consists of whitespace only, the
  no-break space and the next-line control included (the \<open>response\<close> key may also be
  missing), is rejected with the error 400 \<open>Empty response\<close> before the manager is called, and
  the state is returned as it was, so the transcript and the question index are unchanged. The
  error is distinct: no submission with another utterance gets it.
\<close>

theorem empty_utterance_rejected:
  assumes "\<forall>c\<in>set (get_or (req_response body) []). is_space c"
  shows "route_process_voice_response ObjectId env s i body
           = (s, Inl (HTTPException 400 ''Empty response''))
       \<and> (\<forall>body'. snd (route_process_voice_response ObjectId env s i body')
                      = Inl (HTTPException 400 ''Empty response'')
             \<longrightarrow> (\<forall>c\<in>set (get_or (req_response body') []). is_space c))"
proof -
  from assms have "strip (get_or (req_response body) []) = []"
    by (simp add: strip_blank)
  then have rejected: "route_process_voice_response ObjectId env s i body
           = (s, Inl (HTTPException 400 ''Empty response''))"
    by (simp add: route_process_voice_response_def Let_def)
  have distinct: "\<forall>c\<in>set (get_or (req_response body') []). is_space c"
    if r: "snd (route_process_voice_response ObjectId env s i body')
             = Inl (HTTPException 400 ''Empty response'')" for body'
  proof (rule ccontr)
    assume "\<not> (\<forall>c\<in>set (get_or (req_response body') []). is_space c)"
    then have ne: "strip (get_or (req_response body') []) \<noteq> []"
      by (simp add: strip_blank)
    obtain s' res where p: "process_voice_response ObjectId env s i (get_or (req_response body') [])
        (get_or (req_response_time body') 0) = (s', res)"
      by (cases "process_voice_response ObjectId env s i (get_or (req_response body') [])
        (get_or (req_response_time body') 0)")
    from r ne p have "res = Inl ''Empty response''"
      by (auto simp: route_process_voice_response_def Let_def split: sum.splits)
    with p have "snd (snd (process_voice_response_obj ObjectId env s i
        (get_or (req_response body') []) (get_or (req_response_time body') 0))) = Inl ''Empty response''"
      by (simp add: process_voice_response_def split: prod.splits)
    from turn_errors [OF this] show False by simp
  qed
  from rejected distinct show ?thesis by blast
qed

theorem empty_utterance_rejected_witness:
  "list_all is_space (get_or (req_response \<lparr>req_response = Some [CHR 0x20, CHR 0x09, CHR 0xA0, CHR 0x85],
      req_response_time = Some 4\<rparr>) [])
   \<and> route_process_voice_response oid24 env0 (started [q1])  id_a
        \<lparr>req_response = Some [CHR 0x20, CHR 0x09, CHR 0xA0, CHR 0x85], req_response_time = Some 4\<rparr>
      = (started [q1], Inl (HTTPException 400 ''Empty response''))"
proof -
  have blank: "\<forall>c\<in>set (get_or (req_response \<lparr>req_response = Some [CHR 0x20, CHR 0x09, CHR 0xA0, CHR 0x85],
      req_response_time = Some 4\<rparr>) []). is_space c"
    by (simp add: get_or_def is_space_def)
  from empty_utterance_rejected [OF blank, of oid24 env0 "started [q1]" id_a] blank
  show ?thesis by (simp add: list_all_iff)
qed

text \<open>
  What the caller of the start route sees for an interview stored without questions:
  \<open>start_voice_interview\<close> returns \<open>None\<close>; the route answers with the same error as for an id
  that \<open>ObjectId\<close> rejects or that the store does not hold, and writes nothing to the store (the
  status does not become \<open>in_progress\<close>).
\<close>

theorem start_without_questions:
  assumes "ObjectId i = Some k" and "db_interviews s k = Some doc" and "doc_questions doc = []"
  shows "snd (start_voice_interview ObjectId t s i) = None
       \<and> snd (route_start_voice_interview ObjectId t ut s i)
           = Inl (HTTPException_str 500 (HTTPException 404 ''Interview not found''))
       \<and> db_interviews (fst (route_start_voice_interview ObjectId t ut s i)) = db_interviews s
       \<and> (\<forall>j. ObjectId j = None \<or> (\<exists>k'. ObjectId j = Some k' \<and> db_interviews s k' = None)
             \<longrightarrow> snd (route_start_voice_interview ObjectId t ut s j)
                   = snd (route_start_voice_interview ObjectId t ut s i))"
proof -
  have none: "snd (start_voice_interview ObjectId t s i) = None"
    using assms by (simp add: start_voice_interview_def Let_def)
  then have err: "snd (route_start_voice_interview ObjectId t ut s i)
           = Inl (HTTPException_str 500 (HTTPException 404 ''Interview not found''))"
    by (cases "start_voice_interview ObjectId t s i") (simp add: route_start_voice_interview_def)
  have db: "db_interviews (fst (route_start_voice_interview ObjectId t ut s i)) = db_interviews s"
    using none start_voice_db [of ObjectId t s i]
    by (cases "start_voice_interview ObjectId t s i") (simp add: route_start_voice_interview_def)
  have unknown: "snd (route_start_voice_interview ObjectId t ut s j)
                   = snd (route_start_voice_interview ObjectId t ut s i)"
    if "ObjectId j = None \<or> (\<exists>k'. ObjectId j = Some k' \<and> db_interviews s k' = None)" for j
  proof -
    from that have "snd (start_voice_interview ObjectId t s j) = None"
      by (auto simp: start_voice_interview_def)
    then show ?thesis
      unfolding err
      by (cases "start_voice_interview ObjectId t s j") (simp add: route_start_voice_interview_def)
  qed
  from none err db unknown show ?thesis by blast
qed

theorem start_without_questions_witness:
  "oid24 id_a = Some id_a
   \<and> map_option doc_questions (db_interviews (stored []) id_a) = Some []
   \<and> snd (start_voice_interview oid24 2 (stored []) id_a) = None
   \<and> snd (route_start_voice_interview oid24 2 3 (stored []) id_a)
       = Inl (HTTPException_str 500 (HTTPException 404 ''Interview not found''))
   \<and> snd (route_start_voice_interview oid24 2 3 (stored []) ''unknown'')
       = snd (route_start_voice_interview oid24 2 3 (stored []) id_a)"
proof -
  have k: "oid24 id_a = Some id_a"
    by (simp add: oid24_def id_a_def)
  have doc: "db_interviews (stored []) id_a =
      Some \<lparr>doc_resume_id = ''resume'', doc_difficulty = ENTRY, doc_questions = [],
            doc_responses = [], doc_status = ''ready'', doc_created_at = 1,
            doc_completed_at = None, doc_started_at = None, doc_conversation = None\<rparr>"
    by (simp add: stored_def insert_interview_def)
  have unknown: "oid24 ''unknown'' = None"
    by (simp add: oid24_def)
  from start_without_questions [where ObjectId = oid24 and i = id_a and k = id_a
      and s = "stored []" and t = 2 and ut = 3, OF k doc] unknown k doc
  show ?thesis by simp
qed

text \<open>The entry that \<open>start_voice_interview\<close> puts into the table before it reads the first
  question stays there when the list is empty: later turns on that id get
  \<open>No more questions available\<close>.\<close>

lemma empty_start_leaves_entry:
  assumes "ObjectId i = Some k" and "db_interviews s k = Some doc" and "doc_questions doc = []"
  shows "active_interviews (fst (start_voice_interview ObjectId t s i)) i =
           Some \<lparr>current_question_index = 0, questions = [], conversation = [],
                 status = ''active'', follow_up_count = 0, current_question_attempts = 0\<rparr>"
  using assms by (simp add: start_voice_interview_def Let_def)


section \<open>Completion and teardown\<close>

text \<open>
  Claim C7, as stated, fails. The \<open>/complete\<close> route sets the stored status to \<open>completed\<close>
  for an interview that the controller never held, so advancing past the last question is not
  the sole path; and when voice practice is started after that, the status is \<open>in_progress\<close>
  while \<open>completed_at\<close> is still set.
\<close>

theorem completed_by_route_counterexample:
  "active_interviews (stored [q1]) id_a = None
   \<and> map_option doc_status (db_interviews completed_by_route id_a) = Some ''completed''
   \<and> map_option doc_status (db_interviews restarted_after_completion id_a) = Some ''in_progress''
   \<and> map_option doc_completed_at (db_interviews restarted_after_completion id_a) = Some (Some 9)"
  by (simp add: restarted_after_completion_def completed_by_route_def stored_def
      route_complete_interview_def set_route_def route_start_voice_interview_def
      start_voice_interview_def insert_interview_def initial_world_def oid24_def id_a_def
      Let_def store_def update_one_def q1_def append_event_def)

text \<open>
  Claim C7, amended. In every reachable state a stored session whose status is \<open>completed\<close>
  has its \<open>completed_at\<close> set, and teardown is idempotent: a second teardown call for the same
  session returns \<open>False\<close> and leaves the state as the first call left it.
\<close>

theorem completed_at_and_teardown:
  assumes "reachable ObjectId s"
  shows "(\<forall>k doc. db_interviews s k = Some doc \<longrightarrow> doc_status doc = ''completed''
            \<longrightarrow> doc_completed_at doc \<noteq> None)
       \<and> complete_interview ObjectId later (fst (complete_interview ObjectId clock s i)) i
           = (fst (complete_interview ObjectId clock s i), False)"
proof -
  have "docs_ok s"
    using reachable_invariants [OF assms] by simp
  then have docs: "\<forall>k doc. db_interviews s k = Some doc \<longrightarrow> doc_status doc = ''completed''
            \<longrightarrow> doc_completed_at doc \<noteq> None"
    by (simp add: docs_ok_def)
  have twice: "complete_interview ObjectId later (fst (complete_interview ObjectId clock s i)) i
           = (fst (complete_interview ObjectId clock s i), False)"
    by (cases "active_interviews s i"; cases "ObjectId i") (simp_all add: complete_interview_def)
  from docs twice show ?thesis by blast
qed

theorem completed_at_and_teardown_witness:
  "reachable oid24 (started [q1])
   \<and> snd (complete_interview oid24 7 (started [q1]) id_a)
   \<and> active_interviews (fst (complete_interview oid24 7 (started [q1]) id_a)) id_a = None
   \<and> complete_interview oid24 8 (fst (complete_interview oid24 7 (started [q1]) id_a)) id_a
       = (fst (complete_interview oid24 7 (started [q1]) id_a), False)
   \<and> reachable oid24 completed_by_route
   \<and> map_option doc_status (db_interviews completed_by_route id_a) = Some ''completed''
   \<and> map_option doc_completed_at (db_interviews completed_by_route id_a) \<noteq> Some None"
proof -
  have k: "oid24 id_a = Some id_a"
    by (simp add: oid24_def id_a_def)
  have first: "snd (complete_interview oid24 7 (started [q1]) id_a)"
    "active_interviews (fst (complete_interview oid24 7 (started [q1]) id_a)) id_a = None"
    by (simp_all add: complete_interview_present [where ObjectId = oid24, OF started_entry k])
  have r: "reachable oid24 completed_by_route"
    unfolding completed_by_route_def by (rule r_complete [OF reachable_stored_example])
  have doc: "db_interviews completed_by_route id_a =
      Some \<lparr>doc_resume_id = ''resume'', doc_difficulty = ENTRY, doc_questions = [q1],
            doc_responses = [], doc_status = ''completed'', doc_created_at = 1,
            doc_completed_at = Some 9, doc_started_at = None, doc_conversation = None\<rparr>"
    by (simp add: completed_by_route_def stored_def route_complete_interview_def set_route_def
        insert_interview_def initial_world_def k Let_def update_one_def)
  from completed_at_and_teardown [where s = "started [q1]" and later = 8 and clock = 7 and i = id_a,
      OF reachable_started]
    completed_at_and_teardown [where later = 8 and clock = 7 and i = id_a, OF r]
    first r doc reachable_started [of "[q1]"]
  show ?thesis by auto
qed


section \<open>How long a session can stay on one question\<close>







section \<open>Saved response records\<close>

lemma turn_records:
  assumes "active_interviews s i = Some d" "current_question_index d < length (questions d)"
  shows "responses_of (fst (process_voice_response_obj ObjectId env s i u rt)) k = responses_of s k
       \<or> ((action (resolve_turn env d u) \<in> set advance_actions
             \<or> \<not> continue_listening (resolve_turn env d u))
          \<and> (\<exists>r. rr_question_id r = q_id (questions d ! current_question_index d)
                \<and> rr_user_response r = u
                \<and> responses_of (fst (process_voice_response_obj ObjectId env s i u rt)) k
                    = responses_of s k @ [r])
          \<and> (\<exists>d'. fst (snd (process_voice_response_obj ObjectId env s i u rt)) = Some d'
                \<and> current_question_index d' = current_question_index d + 1))"
proof -
  let ?cr = "resolve_turn env d u"
  consider (meta) "action ?cr \<in> set meta_actions"
    | (pending_fu) "action ?cr \<in> set follow_up_actions" "continue_listening ?cr"
        "follow_up_count d + 1 < 2"
    | (forced) "action ?cr \<in> set follow_up_actions" "continue_listening ?cr"
        "2 \<le> follow_up_count d + 1"
    | (skip) "action ?cr = ''skip_question''"
    | (finish) "action ?cr \<notin> set meta_actions"
        "\<not> (action ?cr \<in> set follow_up_actions \<and> continue_listening ?cr)"
        "action ?cr \<noteq> ''skip_question''"
        "action ?cr \<in> set advance_actions \<or> \<not> continue_listening ?cr"
    | (pending) "action ?cr \<notin> set meta_actions"
        "\<not> (action ?cr \<in> set follow_up_actions \<and> continue_listening ?cr)"
        "action ?cr \<noteq> ''skip_question''"
        "\<not> (action ?cr \<in> set advance_actions \<or> \<not> continue_listening ?cr)"
    by (cases "follow_up_count d + 1 < 2") auto
  then show ?thesis
  proof cases
    case meta
    show ?thesis by (rule disjI1) (simp add: turn_meta [OF assms meta])
  next
    case pending_fu
    show ?thesis by (rule disjI1) (simp add: turn_follow_up_pending [OF assms pending_fu])
  next
    case forced
    show ?thesis by (rule disjI1) (simp add: turn_follow_up_forced [OF assms forced])
  next
    case skip
    show ?thesis by (rule disjI1) (simp add: turn_skip [OF assms skip])
  next
    case pending
    show ?thesis by (rule disjI1) (simp add: turn_pending [OF assms pending])
  next
    case finish
    show ?thesis
    proof (cases "ObjectId i = Some k \<and> db_interviews s k \<noteq> None")
      case False
      then show ?thesis
        by (intro disjI1) (simp add: turn_finish [OF assms finish] responses_of_save)
    next
      case True
      then show ?thesis
        using finish(4)
        by (intro disjI2) (simp add: turn_finish [OF assms finish] responses_of_save)
    qed
  qed
qed

lemma run_turns_absent:
  "active_interviews s i = None \<Longrightarrow> run_turns ObjectId s i inputs = s"
  by (induction inputs arbitrary: s)
     (auto simp: process_voice_response_proj turn_not_found)

lemma run_turns_exhausted:
  "active_interviews s i = Some d \<Longrightarrow> length (questions d) \<le> current_question_index d
   \<Longrightarrow> run_turns ObjectId s i inputs = s"
  by (induction inputs arbitrary: s)
     (auto simp: process_voice_response_proj turn_exhausted)

text \<open>Within one activation the records appended by a run of turns are for strictly increasing
  question indices, from the current one on.\<close>

lemma run_turns_records:
  assumes "active_interviews s i = Some d" and "ObjectId i = Some k"
  shows "\<exists>idxs. sorted_wrt (<) idxs
           \<and> (\<forall>n\<in>set idxs. current_question_index d \<le> n \<and> n < length (questions d))
           \<and> map rr_question_id (responses_of (run_turns ObjectId s i inputs) k)
               = map rr_question_id (responses_of s k) @ map (\<lambda>n. q_id (questions d ! n)) idxs"
  using assms(1)
proof (induction inputs arbitrary: s d)
  case Nil
  show ?case by (intro exI [of _ "[]"]) simp
next
  case (Cons x rest)
  obtain env u rt where x: "x = (env, u, rt)" by (cases x)
  let ?P = "process_voice_response_obj ObjectId env s i u rt"
  have run: "run_turns ObjectId s i (x # rest) = run_turns ObjectId (fst ?P) i rest"
    by (simp add: x process_voice_response_proj)
  show ?case
  proof (cases "current_question_index d < length (questions d)")
    case False
    with Cons.prems have "run_turns ObjectId s i (x # rest) = s"
      by (simp add: run_turns_exhausted)
    then show ?thesis by (intro exI [of _ "[]"]) simp
  next
    case inside: True
    from assms(2) have oid: "ObjectId i \<noteq> None" by simp
    obtain d1 where d1:
      "fst (snd ?P) = Some d1" "questions d1 = questions d"
      "current_question_index d1 = current_question_index d
         \<or> current_question_index d1 = current_question_index d + 1 \<and> follow_up_count d1 = 0"
      "active_interviews (fst ?P) i
         = (if current_question_index d1 < length (questions d) then Some d1 else None)"
      using turn_object [OF Cons.prems inside, of ObjectId env u rt] oid by metis
    have rest: "\<exists>idxs. sorted_wrt (<) idxs
           \<and> (\<forall>n\<in>set idxs. current_question_index d1 \<le> n \<and> n < length (questions d))
           \<and> map rr_question_id (responses_of (run_turns ObjectId (fst ?P) i rest) k)
               = map rr_question_id (responses_of (fst ?P) k)
                 @ map (\<lambda>n. q_id (questions d ! n)) idxs"
    proof (cases "current_question_index d1 < length (questions d)")
      case True
      with d1(4) have "active_interviews (fst ?P) i = Some d1" by simp
      from Cons.IH [OF this] d1(2) show ?thesis by simp
    next
      case False
      with d1(4) have "run_turns ObjectId (fst ?P) i rest = fst ?P"
        by (simp add: run_turns_absent)
      then show ?thesis by (intro exI [of _ "[]"]) simp
    qed
    then obtain idxs where idxs: "sorted_wrt (<) idxs"
      "\<forall>n\<in>set idxs. current_question_index d1 \<le> n \<and> n < length (questions d)"
      "map rr_question_id (responses_of (run_turns ObjectId (fst ?P) i rest) k)
         = map rr_question_id (responses_of (fst ?P) k) @ map (\<lambda>n. q_id (questions d ! n)) idxs"
      by blast
    from turn_records [OF Cons.prems inside, of ObjectId env u rt k]
    consider (same) "responses_of (fst ?P) k = responses_of s k"
      | (saved) r d' where "rr_question_id r = q_id (questions d ! current_question_index d)"
          "responses_of (fst ?P) k = responses_of s k @ [r]"
          "fst (snd ?P) = Some d'" "current_question_index d' = current_question_index d + 1"
      by blast
    then show ?thesis
    proof cases
      case same
      from d1(3) idxs(2) have "\<forall>n\<in>set idxs. current_question_index d \<le> n \<and> n < length (questions d)"
        by auto
      with idxs(1,3) same run show ?thesis
        by (intro exI [of _ idxs]) simp
    next
      case saved
      note r = saved(1,2) and d' = saved(3,4)
      from d' d1(1) have step: "current_question_index d1 = current_question_index d + 1"
        by simp
      with idxs(1,2) have "sorted_wrt (<) (current_question_index d # idxs)"
        by auto
      moreover from step idxs(2) inside
      have "\<forall>n\<in>set (current_question_index d # idxs).
              current_question_index d \<le> n \<and> n < length (questions d)"
        by auto
      moreover have "map rr_question_id (responses_of (run_turns ObjectId s i (x # rest)) k)
               = map rr_question_id (responses_of s k)
                 @ map (\<lambda>n. q_id (questions d ! n)) (current_question_index d # idxs)"
        using run idxs(3) r by simp
      ultimately show ?thesis
        by (intro exI [of _ "current_question_index d # idxs"]) blast
    qed
  qed
qed

text \<open>
  Claim C5, as stated, fails over the life of a stored session: voice practice can be started
  again on the same id, which puts the index back to 0, and the first question then gets a
  second record from the turn controller.
\<close>

theorem restarted_session_counterexample:
  "map rr_question_id (responses_of answered_once id_a) = [''q1'']
   \<and> map rr_question_id (responses_of answered_again id_a) = [''q1'', ''q1'']"
  by code_simp

text \<open>
  Claim C5, amended. Within one activation of a session (from the start of voice practice until
  the entry is removed or replaced by another start), the turn controller appends at most one
  record per question index: over any run of turns the appended records are for strictly
  increasing question indices at or after the current one. A turn appends a record only on the
  branch whose action is \<open>continue\<close> or \<open>move_next\<close> or whose resolver does not keep listening,
  the record is for the current question, and that turn advances the index by one.
\<close>

theorem one_record_per_question:
  assumes "active_interviews s i = Some d" and "ObjectId i = Some k"
  shows "(\<forall>inputs. \<exists>idxs. sorted_wrt (<) idxs
            \<and> (\<forall>n\<in>set idxs. current_question_index d \<le> n \<and> n < length (questions d))
            \<and> map rr_question_id (responses_of (run_turns ObjectId s i inputs) k)
                = map rr_question_id (responses_of s k) @ map (\<lambda>n. q_id (questions d ! n)) idxs)
       \<and> (\<forall>env u rt. current_question_index d < length (questions d) \<longrightarrow>
            responses_of (fst (process_voice_response ObjectId env s i u rt)) k = responses_of s k
            \<or> ((action (resolve_turn env d u) \<in> set advance_actions
                  \<or> \<not> continue_listening (resolve_turn env d u))
               \<and> (\<exists>r. rr_question_id r = q_id (questions d ! current_question_index d)
                     \<and> rr_user_response r = u
                     \<and> responses_of (fst (process_voice_response ObjectId env s i u rt)) k
                         = responses_of s k @ [r])
               \<and> (\<exists>d'. fst (snd (process_voice_response_obj ObjectId env s i u rt)) = Some d'
                     \<and> current_question_index d' = current_question_index d + 1)))"
  using run_turns_records [where ObjectId = ObjectId, OF assms]
    turn_records [OF assms(1), of ObjectId _ _ _ k]
  by (simp add: process_voice_response_proj)

theorem one_record_per_question_witness:
  "active_interviews (started [q1, q2]) id_a = Some (session_at_start 2 q1 [q2])
   \<and> oid24 id_a = Some id_a
   \<and> map rr_question_id (responses_of (started [q1, q2]) id_a) = []
   \<and> (\<exists>idxs. sorted_wrt (<) idxs \<and> list_all (\<lambda>n. n < 2) idxs
         \<and> map rr_question_id
             (responses_of (run_turns oid24 (started [q1, q2]) id_a
                [(env0, long_answer, 3), (env0, ''yes'', 1), (env0, long_answer, 4)]) id_a)
           = map (\<lambda>n. q_id ([q1, q2] ! n)) idxs)"
proof -
  have k: "oid24 id_a = Some id_a"
    by (simp add: oid24_def id_a_def)
  have none: "responses_of (started [q1, q2]) id_a = []"
    by code_simp
  from one_record_per_question [where ObjectId = oid24, OF started_entry k]
  obtain idxs where "sorted_wrt (<) idxs"
    "\<forall>n\<in>set idxs. current_question_index (session_at_start 2 q1 [q2]) \<le> n
        \<and> n < length (questions (session_at_start 2 q1 [q2]))"
    "map rr_question_id
       (responses_of (run_turns oid24 (started [q1, q2]) id_a
          [(env0, long_answer, 3), (env0, ''yes'', 1), (env0, long_answer, 4)]) id_a)
     = map rr_question_id (responses_of (started [q1, q2]) id_a)
       @ map (\<lambda>n. q_id (questions (session_at_start 2 q1 [q2]) ! n)) idxs"
    by blast
  then have "sorted_wrt (<) idxs \<and> list_all (\<lambda>n. n < 2) idxs
         \<and> map rr_question_id
             (responses_of (run_turns oid24 (started [q1, q2]) id_a
                [(env0, long_answer, 3), (env0, ''yes'', 1), (env0, long_answer, 4)]) id_a)
           = map (\<lambda>n. q_id ([q1, q2] ! n)) idxs"
    by (simp add: none session_at_start_def list_all_iff numeral_2_eq_2 del: run_turns.simps)
  with started_entry k none show ?thesis by blast
qed


section \<open>Sessions without questions\<close>

lemma reachable_inside:
  assumes "reachable ObjectId s"
  shows "sessions_inside s"
  using assms
proof (induction rule: reachable.induct)
  case r_init
  show ?case by (simp add: sessions_inside_def initial_world_def)
next
  case (r_generate s k resume_id level qs utcnow)
  then show ?case by (simp add: sessions_inside_def insert_interview_def)
next
  case (r_start s utcnow interview_id)
  then show ?case by (simp add: sessions_inside_def route_start_interview_def)
next
  case (r_submit s payload interview_id resp)
  then show ?case by (simp add: sessions_inside_def)
next
  case (r_complete s utcnow interview_id)
  then show ?case by (simp add: sessions_inside_def route_complete_interview_def)
next
  case (r_start_voice s clock utcnow interview_id)
  show ?case
    unfolding sessions_inside_def
  proof (intro allI impI)
    fix j d
    assume "active_interviews (fst (route_start_voice_interview ObjectId clock utcnow s interview_id)) j
              = Some d" and q: "questions d \<noteq> []"
    then have "active_interviews (fst (start_voice_interview ObjectId clock s interview_id)) j = Some d"
      by simp
    from start_voice_entries [OF this] r_start_voice.IH q
    show "current_question_index d < length (questions d)"
      by (auto simp: sessions_inside_def)
  qed
next
  case (r_voice_response s env interview_id body)
  let ?u = "get_or (req_response body) []" and ?rt = "get_or (req_response_time body) 0"
  let ?P = "process_voice_response_obj ObjectId env s interview_id ?u ?rt"
  have "sessions_inside (fst ?P)"
    unfolding sessions_inside_def
  proof (intro allI impI)
    fix j d'
    assume entry: "active_interviews (fst ?P) j = Some d'" and q: "questions d' \<noteq> []"
    show "current_question_index d' < length (questions d')"
    proof (cases "j = interview_id")
      case False
      with entry q r_voice_response.IH show ?thesis
        by (simp add: turn_other sessions_inside_def)
    next
      case True
      show ?thesis
      proof (cases "active_interviews s interview_id")
        case None
        with entry True show ?thesis by (simp add: turn_not_found)
      next
        case (Some d)
        have oid: "ObjectId interview_id \<noteq> None"
          using reachable_invariants [OF r_voice_response.hyps] Some
          by (auto simp: sessions_ok_def)
        show ?thesis
        proof (cases "current_question_index d < length (questions d)")
          case False
          with Some entry True q r_voice_response.IH show ?thesis
            by (simp add: turn_exhausted sessions_inside_def)
        next
          case inside: True
          obtain d'' where o: "questions d'' = questions d"
            "active_interviews (fst ?P) interview_id
               = (if current_question_index d'' < length (questions d) then Some d'' else None)"
            using turn_object [OF Some inside, of ObjectId env ?u ?rt] oid by metis
          from o(2) entry True
          have "current_question_index d'' < length (questions d)" "d' = d''"
            by (auto split: if_splits)
          with o(1) show ?thesis by simp
        qed
      qed
    qed
  qed
  with r_voice_response.IH show ?case
    by (simp add: route_voice_response_world)
next
  case (r_complete_voice s clock interview_id)
  show ?case
    unfolding sessions_inside_def route_complete_voice_world
  proof (intro allI impI)
    fix j d
    assume "active_interviews (fst (complete_interview ObjectId clock s interview_id)) j = Some d"
      and q: "questions d \<noteq> []"
    then have "active_interviews s j = Some d"
      by (simp add: complete_interview_def split: option.splits if_splits)
    with r_complete_voice.IH q show "current_question_index d < length (questions d)"
      by (simp add: sessions_inside_def)
  qed
qed

text \<open>In a reachable state the only entries whose index equals the number of questions are
  therefore those without questions; none of them is completed.\<close>

lemma at_end_only_without_questions:
  assumes "reachable ObjectId s" and "active_interviews s i = Some d"
    and "current_question_index d = length (questions d)"
  shows "questions d = [] \<and> status d = ''active''"
proof -
  from reachable_inside [OF assms(1)] assms(2)
  have "questions d \<noteq> [] \<longrightarrow> current_question_index d < length (questions d)"
    unfolding sessions_inside_def by blast
  with assms(3) have "questions d = []" by auto
  moreover from assms(2) have "status d = ''active''"
    using reachable_invariants [OF assms(1)] by (auto simp: sessions_ok_def)
  ultimately show ?thesis by simp
qed

lemma stored_empty_doc:
  "db_interviews (stored []) id_a =
     Some \<lparr>doc_resume_id = ''resume'', doc_difficulty = ENTRY, doc_questions = [],
           doc_responses = [], doc_status = ''ready'', doc_created_at = 1,
           doc_completed_at = None, doc_started_at = None, doc_conversation = None\<rparr>"
  by (simp add: stored_def insert_interview_def)

lemma oid24_id_a: "oid24 id_a = Some id_a"
  by (simp add: oid24_def id_a_def)

lemma started_empty:
  "started [] = store id_a empty_session (stored [])"
  by (simp add: started_def route_start_voice_interview_def start_voice_interview_def
      oid24_id_a stored_empty_doc Let_def empty_session_def)

text \<open>
  Claim C1. The code breaks the claim at a session without questions. Starting voice practice on
  an interview stored with an empty question list fails, but leaves an entry in the table: a
  reachable state in which the question index equals the number of questions (both 0) while the
  status is \<open>active\<close>, not \<open>completed\<close>. No turn is processed on that entry, so the controller
  never completes it.
\<close>

theorem zero_question_entry_not_completed:
  "reachable oid24 (started [])
   \<and> active_interviews (started []) id_a = Some empty_session
   \<and> current_question_index empty_session = length (questions empty_session)
   \<and> status empty_session = ''active''
   \<and> process_voice_response oid24 env0 (started []) id_a long_answer 3
       = (started [], Inl ''No more questions available'')"
proof -
  have entry: "active_interviews (started []) id_a = Some empty_session"
    by (simp add: started_empty)
  have at_end: "length (questions empty_session) \<le> current_question_index empty_session"
    by (simp add: empty_session_def)
  have "process_voice_response oid24 env0 (started []) id_a long_answer 3
       = (started [], Inl ''No more questions available'')"
    by (simp add: process_voice_response_def turn_exhausted [OF entry at_end])
  with reachable_started [of "[]"] entry show ?thesis
    by (simp add: empty_session_def)
qed

text \<open>
  Claim C10. The code breaks the claim in part. For a stored interview without questions
  \<open>start_voice_interview\<close> returns \<open>None\<close> and the route answers with the error of an unknown id,
  as claimed; but an interview with zero questions has been started in the table all the same.
  A turn on that id is answered with \<open>No more questions available\<close>, where a session that was
  never started gets \<open>Interview not found or not active\<close>, and the \<open>complete-voice\<close> route
  finds the entry, succeeds and sets the stored status to \<open>completed\<close>.
\<close>

theorem zero_question_start_leaves_session:
  "snd (start_voice_interview oid24 2 (stored []) id_a) = None
   \<and> snd (route_start_voice_interview oid24 2 3 (stored []) id_a)
       = Inl (HTTPException_str 500 (HTTPException 404 ''Interview not found''))
   \<and> active_interviews (stored []) id_a = None
   \<and> active_interviews (fst (route_start_voice_interview oid24 2 3 (stored []) id_a)) id_a
       = Some empty_session
   \<and> snd (process_voice_response oid24 env0 (stored []) id_a long_answer 3)
       = Inl ''Interview not found or not active''
   \<and> snd (process_voice_response oid24 env0
             (fst (route_start_voice_interview oid24 2 3 (stored []) id_a)) id_a long_answer 3)
       = Inl ''No more questions available''
   \<and> snd (route_complete_voice_interview oid24 7
             (fst (route_start_voice_interview oid24 2 3 (stored []) id_a)) id_a)
       = Inr ''Voice interview completed successfully''
   \<and> map_option doc_status
        (db_interviews
           (fst (route_complete_voice_interview oid24 7
                   (fst (route_start_voice_interview oid24 2 3 (stored []) id_a)) id_a)) id_a)
       = Some ''completed''"
proof -
  have none: "snd (start_voice_interview oid24 2 (stored []) id_a) = None"
    by (simp add: start_voice_interview_def oid24_id_a stored_empty_doc Let_def)
  have err: "snd (route_start_voice_interview oid24 2 3 (stored []) id_a)
       = Inl (HTTPException_str 500 (HTTPException 404 ''Interview not found''))"
    by (simp add: route_start_voice_interview_def start_voice_interview_def oid24_id_a
        stored_empty_doc Let_def)
  have before: "active_interviews (stored []) id_a = None"
    by (simp add: stored_def insert_interview_def initial_world_def)
  have world: "fst (route_start_voice_interview oid24 2 3 (stored []) id_a)
                 = store id_a empty_session (stored [])"
    using started_empty by (simp add: started_def)
  have entry: "active_interviews (store id_a empty_session (stored [])) id_a = Some empty_session"
    by simp
  have at_end: "length (questions empty_session) \<le> current_question_index empty_session"
    by (simp add: empty_session_def)
  have absent: "snd (process_voice_response oid24 env0 (stored []) id_a long_answer 3)
       = Inl ''Interview not found or not active''"
    by (simp add: process_voice_response_def turn_not_found [OF before])
  have refused: "snd (process_voice_response oid24 env0
             (store id_a empty_session (stored [])) id_a long_answer 3)
       = Inl ''No more questions available''"
    by (simp add: process_voice_response_def turn_exhausted [OF entry at_end])
  have teardown: "complete_interview oid24 7 (store id_a empty_session (stored [])) id_a =
      ((store id_a empty_session (stored []))
         \<lparr>db_interviews := update_one id_a
            (\<lambda>doc. doc\<lparr>doc_status := ''completed'',
                        doc_conversation := Some (conversation empty_session),
                        doc_completed_at := Some 7\<rparr>)
            (db_interviews (store id_a empty_session (stored []))),
          active_interviews := (active_interviews (store id_a empty_session (stored [])))(id_a := None)\<rparr>,
       True)"
    by (rule complete_interview_present [where ObjectId = oid24, OF entry oid24_id_a])
  have completed: "snd (route_complete_voice_interview oid24 7
             (store id_a empty_session (stored [])) id_a)
       = Inr ''Voice interview completed successfully''"
    "map_option doc_status
        (db_interviews
           (fst (route_complete_voice_interview oid24 7
                   (store id_a empty_session (stored [])) id_a)) id_a)
       = Some ''completed''"
    by (simp_all add: route_complete_voice_interview_def teardown update_one_same stored_empty_doc)
  from none err before entry absent refused completed show ?thesis
    unfolding world by simp
qed

end
